theory Spec2Isabelle
  imports Main "HOL-Library.Sublist" "HOL-Library.Word"
begin

section \<open>Python values used by reverse\_proxy.py\<close>

text \<open>
  \<open>bytes\<close> objects are lists of 8-bit characters (\<open>string\<close>); \<open>str\<close> objects are lists of
  Unicode code points (\<open>nat list\<close>).  Exceptions are values of \<open>exn\<close>; a Python function
  that can raise returns \<open>exn + 'a\<close>, with \<open>Inl\<close> for the exception.
\<close>

type_synonym bytes = string
type_synonym pystr = "nat list"

datatype exn =
  ValueError | IndexError | AttributeError | UnicodeDecodeError | JSONDecodeError
  | OSError | OtherError

definition ascii :: "string \<Rightarrow> pystr" where
  \<comment> \<open>the \<open>str\<close> literal with the given ASCII characters\<close>
  "ascii s = map of_char s"

definition CRLF :: bytes where
  "CRLF = [CHR 0x0D, CHR 0x0A]"

definition BUFFER_SIZE :: nat where
  "BUFFER_SIZE = 4096"

subsection \<open>Searching and splitting (\<open>in\<close>, \<open>split\<close>, \<open>startswith\<close>)\<close>

text \<open>\<open>sub in s\<close> on sequences: some position of \<open>s\<close> starts a copy of \<open>sub\<close>.\<close>

fun contains :: "'a list \<Rightarrow> 'a list \<Rightarrow> bool" where
  "contains sub [] = (sub = [])"
| "contains sub (x # xs) = (prefix sub (x # xs) \<or> contains sub xs)"

text \<open>
  The leftmost occurrence of \<open>sep\<close> in \<open>s\<close>: what stands before it and what stands after it.
\<close>

fun find_sep :: "'a list \<Rightarrow> 'a list \<Rightarrow> ('a list \<times> 'a list) option" where
  "find_sep sep [] = None"
| "find_sep sep (x # xs) =
     (if prefix sep (x # xs) then Some ([], drop (length sep) (x # xs))
      else map_option (\<lambda>(a, b). (x # a, b)) (find_sep sep xs))"

text \<open>
  \<open>s.split(sep, 1)\<close>: one element when \<open>sep\<close> does not occur, two otherwise.  The
  separators of this program are non-empty constants (Python raises \<open>ValueError\<close> on an
  empty one).
\<close>

definition split_max1 :: "'a list \<Rightarrow> 'a list \<Rightarrow> 'a list list" where
  "split_max1 sep s = (case find_sep sep s of None \<Rightarrow> [s] | Some (a, b) \<Rightarrow> [a, b])"

lemma find_sep_shorter:
  "find_sep sep s = Some (a, b) \<Longrightarrow> sep \<noteq> [] \<Longrightarrow> length b < length s"
proof (induction s arbitrary: a)
  case Nil
  then show ?case by simp
next
  case (Cons x xs)
  show ?case
  proof (cases "prefix sep (x # xs)")
    case True
    with Cons.prems show ?thesis by (cases sep) auto
  next
    case False
    with Cons.prems obtain a' where "find_sep sep xs = Some (a', b)"
      by (auto split: prod.splits)
    with Cons.IH Cons.prems(2) show ?thesis by fastforce
  qed
qed

text \<open>\<open>s.split(sep)\<close>: cut at every occurrence of \<open>sep\<close>, left to right.\<close>

function split_all :: "'a list \<Rightarrow> 'a list \<Rightarrow> 'a list list" where
  "split_all sep s =
     (if sep = [] then [s]
      else case find_sep sep s of None \<Rightarrow> [s] | Some (a, b) \<Rightarrow> a # split_all sep b)"
  by pat_completeness auto
termination
  by (relation "measure (\<lambda>(sep, s). length s)") (auto dest: find_sep_shorter)

declare split_all.simps [simp del]

section \<open>Library functions on \<open>str\<close> used by the Host Header Parser\<close>

subsection \<open>\<open>bytes.decode()\<close>: strict UTF-8\<close>

definition is_cont :: "nat \<Rightarrow> bool" where
  "is_cont b = (0x80 \<le> b \<and> b \<le> 0xBF)"

text \<open>
  The first code point of a byte sequence and the number of bytes it takes.  Overlong
  forms, surrogates and values above U+10FFFF are rejected, as Python's codec does.
\<close>

fun utf8_first :: "nat list \<Rightarrow> (nat \<times> nat) option" where
  "utf8_first [] = None"
| "utf8_first (b0 # bs) =
     (if b0 < 0x80 then Some (b0, 1)
      else if 0xC2 \<le> b0 \<and> b0 \<le> 0xDF then
        (case bs of
           b1 # _ \<Rightarrow>
             if is_cont b1 then Some ((b0 - 0xC0) * 64 + (b1 - 0x80), 2) else None
         | _ \<Rightarrow> None)
      else if 0xE0 \<le> b0 \<and> b0 \<le> 0xEF then
        (case bs of
           b1 # b2 # _ \<Rightarrow>
             if is_cont b1 \<and> is_cont b2 \<and> (b0 = 0xE0 \<longrightarrow> 0xA0 \<le> b1)
                \<and> (b0 = 0xED \<longrightarrow> b1 \<le> 0x9F)
             then Some ((b0 - 0xE0) * 4096 + (b1 - 0x80) * 64 + (b2 - 0x80), 3) else None
         | _ \<Rightarrow> None)
      else if 0xF0 \<le> b0 \<and> b0 \<le> 0xF4 then
        (case bs of
           b1 # b2 # b3 # _ \<Rightarrow>
             if is_cont b1 \<and> is_cont b2 \<and> is_cont b3 \<and> (b0 = 0xF0 \<longrightarrow> 0x90 \<le> b1)
                \<and> (b0 = 0xF4 \<longrightarrow> b1 \<le> 0x8F)
             then Some ((b0 - 0xF0) * 262144 + (b1 - 0x80) * 4096 + (b2 - 0x80) * 64
                        + (b3 - 0x80), 4)
             else None
         | _ \<Rightarrow> None)
      else None)"

lemma utf8_first_pos: "utf8_first bs = Some (c, n) \<Longrightarrow> 0 < n"
  by (cases bs) (auto split: if_splits list.splits)

function utf8 :: "nat list \<Rightarrow> exn + pystr" where
  "utf8 bs =
     (if bs = [] then Inr []
      else case utf8_first bs of
             None \<Rightarrow> Inl UnicodeDecodeError
           | Some (c, n) \<Rightarrow>
               (case utf8 (drop n bs) of Inl e \<Rightarrow> Inl e | Inr cs \<Rightarrow> Inr (c # cs)))"
  by pat_completeness auto
termination
  by (relation "measure length") (auto dest: utf8_first_pos)

declare utf8.simps [simp del]

definition decode :: "bytes \<Rightarrow> exn + pystr" where
  "decode b = utf8 (map of_char b)"

subsection \<open>\<open>str.strip()\<close>\<close>

definition is_space :: "nat \<Rightarrow> bool" where
  \<comment> \<open>\<open>str.isspace\<close> of one code point\<close>
  "is_space c =
     ((9 \<le> c \<and> c \<le> 13) \<or> (28 \<le> c \<and> c \<le> 32) \<or> c = 0x85 \<or> c = 0xA0 \<or> c = 0x1680
      \<or> (0x2000 \<le> c \<and> c \<le> 0x200A) \<or> c = 0x2028 \<or> c = 0x2029 \<or> c = 0x202F
      \<or> c = 0x205F \<or> c = 0x3000)"

definition strip :: "pystr \<Rightarrow> pystr" where
  "strip s = rev (dropWhile is_space (rev (dropWhile is_space s)))"

subsection \<open>\<open>int(str)\<close>\<close>

text \<open>
  What the Python runtime supplies and this repository does not: the JSON parser
  (\<open>json.loads\<close>), the decimal value of a non-ASCII digit (the Unicode database) and the
  limit on the number of digits \<open>int\<close> converts (\<open>sys.get_int_max_str_digits()\<close>, 4300
  unless configured; 0 for no limit).
\<close>

datatype json =
  JNull | JBool bool | JInt int | JFloat "64 word" | JStr pystr
  | JList "json list" | JDict "(pystr \<times> json) list"

record runtime =
  json_loads :: "bytes \<Rightarrow> exn + json"
  to_decimal :: "nat \<Rightarrow> nat option"
  max_str_digits :: nat

definition int_space :: "nat \<Rightarrow> bool" where
  \<comment> \<open>the white space \<open>int\<close> skips: C \<open>isspace\<close> below 128, \<open>str.isspace\<close> from 128 on\<close>
  "int_space c = (if c < 128 then (9 \<le> c \<and> c \<le> 13) \<or> c = 32 else is_space c)"

definition digit_of :: "runtime \<Rightarrow> nat \<Rightarrow> nat option" where
  "digit_of rt c =
     (if 48 \<le> c \<and> c \<le> 57 then Some (c - 48)
      else if c < 128 then None
      else to_decimal rt c)"

definition digit_or_underscore :: "runtime \<Rightarrow> nat \<Rightarrow> bool" where
  "digit_or_underscore rt c = (c = 95 \<or> digit_of rt c \<noteq> None)"

definition decimal_value :: "nat list \<Rightarrow> nat" where
  "decimal_value ds = foldl (\<lambda>a d. 10 * a + d) 0 ds"

text \<open>
  \<open>int(s)\<close> in base 10: optional white space, an optional sign, decimal digits with
  single underscores allowed between them, optional white space.  Anything else, or more
  digits than the limit, raises \<open>ValueError\<close>.
\<close>

definition py_int :: "runtime \<Rightarrow> pystr \<Rightarrow> exn + int" where
  "py_int rt s =
     (let s1 = dropWhile int_space s;
          neg = (case s1 of c # _ \<Rightarrow> c = 45 | [] \<Rightarrow> False);
          s2 = (case s1 of c # r \<Rightarrow> if c = 45 \<or> c = 43 then r else s1 | [] \<Rightarrow> []);
          body = takeWhile (digit_or_underscore rt) s2;
          rest = dropWhile (digit_or_underscore rt) s2;
          ds = List.map_filter (digit_of rt) body
      in if body = [] \<or> prefix [95] body \<or> suffix [95] body \<or> contains [95, 95] body
            \<or> (0 < max_str_digits rt \<and> 640 < length ds \<and> max_str_digits rt < length ds)
            \<or> \<not> list_all int_space rest
         then Inl ValueError
         else Inr ((if neg then - 1 else 1) * int (decimal_value ds)))"

section \<open>Host Header Parser\<close>

definition index :: "'a list \<Rightarrow> nat \<Rightarrow> exn + 'a" where
  \<comment> \<open>\<open>xs[i]\<close> for a literal \<open>i \<ge> 0\<close>\<close>
  "index xs i = (if i < length xs then Inr (xs ! i) else Inl IndexError)"

text \<open>
  The \<open>try\<close> block of \<open>parse_host_header\<close>:
  \<^verbatim>\<open>
    host_header = host_header.decode().split(":")
    original_host = host_header[1].strip()
    original_port = int(host_header[2].strip()) if len(host_header) > 2 else 80
    return original_host, original_port
  \<close>
\<close>

definition parse_host_header_try :: "runtime \<Rightarrow> bytes \<Rightarrow> exn + (pystr \<times> int)" where
  "parse_host_header_try rt host_header =
     (case decode host_header of
        Inl e \<Rightarrow> Inl e
      | Inr text \<Rightarrow>
          (let fields = split_all (ascii '':'') text in
           case index fields 1 of
             Inl e \<Rightarrow> Inl e
           | Inr f1 \<Rightarrow>
               (let original_host = strip f1 in
                case (if length fields > 2
                      then (case index fields 2 of
                              Inl e \<Rightarrow> Inl e
                            | Inr f2 \<Rightarrow> py_int rt (strip f2))
                      else Inr 80) of
                  Inl e \<Rightarrow> Inl e
                | Inr original_port \<Rightarrow> Inr (original_host, original_port))))"

text \<open>
  \<open>except: ... return None, None\<close>: every exception of the block becomes the result
  \<open>(None, None)\<close>, here \<open>None\<close>; the function itself returns normally (\<open>Inr\<close>).
\<close>

definition parse_host_header :: "runtime \<Rightarrow> bytes \<Rightarrow> exn + (pystr \<times> int) option" where
  "parse_host_header rt host_header =
     (case parse_host_header_try rt host_header of
        Inl e \<Rightarrow> Inr None
      | Inr r \<Rightarrow> Inr (Some r))"

section \<open>Endpoint Table and rule evaluation\<close>

text \<open>
  \<open>API_ENDPOINTS\<close> is read from \<open>config.yaml\<close>, which is not part of the repository: the
  table is a parameter.  It is a dict, iterated in insertion order, from the endpoint's
  name to its rule.
\<close>

record endpoint_rule =
  match_field :: pystr
  match_value :: pystr
  target_host :: pystr
  target_port :: int

type_synonym endpoint_table = "(pystr \<times> endpoint_rule) list"

text \<open>
  \<open>payload.get(key)\<close>: only a dict has the method; a missing key gives \<open>None\<close>.  A dict
  is kept as the list of its items, each key once.
\<close>

fun py_get :: "json \<Rightarrow> pystr \<Rightarrow> exn + json" where
  "py_get (JDict d) k = Inr (case map_of d k of None \<Rightarrow> JNull | Some v \<Rightarrow> v)"
| "py_get _ k = Inl AttributeError"

text \<open>
  \<^verbatim>\<open>
    for endpoint, config in API_ENDPOINTS.items():
        if payload.get(config["match_field"]) == config["match_value"]:
            return config["target_host"], config["target_port"]
    return None, None
  \<close>
  \<open>match_value\<close> is a \<open>str\<close>, and a \<open>str\<close> is \<open>==\<close> only to a \<open>str\<close> with the same code
  points.  The result \<open>(None, None)\<close> is \<open>None\<close>.
\<close>

fun find_target_endpoint :: "endpoint_table \<Rightarrow> json \<Rightarrow> exn + (pystr \<times> int) option" where
  "find_target_endpoint [] payload = Inr None"
| "find_target_endpoint ((endpoint, config) # rest) payload =
     (case py_get payload (match_field config) of
        Inl e \<Rightarrow> Inl e
      | Inr v \<Rightarrow>
          if v = JStr (match_value config)
          then Inr (Some (target_host config, target_port config))
          else find_target_endpoint rest payload)"

section \<open>Endpoint Resolver\<close>

definition no_host :: "(pystr \<times> int) option \<Rightarrow> bool" where
  \<comment> \<open>\<open>not target_host\<close>: the host is \<open>None\<close> or the empty string\<close>
  "no_host t = (case t of None \<Rightarrow> True | Some (h, p) \<Rightarrow> h = [])"

definition host_line :: "bytes \<Rightarrow> bytes" where
  \<comment> \<open>\<open>next((h for h in headers.split(b"\r\n") if h.startswith(b"Host: ")), b"")\<close>\<close>
  "host_line headers =
     (case List.find (prefix ''Host: '') (split_all CRLF headers) of
        Some h \<Rightarrow> h
      | None \<Rightarrow> [])"

text \<open>
  The \<open>try\<close> block of \<open>determine_target_endpoint\<close>.  The streaming branch is \<open>pass\<close>: it
  leaves the block and reaches the final \<open>return None, None\<close>.  Unpacking
  \<open>headers, payload_str = data.split(b"\r\n\r\n", 1)\<close> raises \<open>ValueError\<close> unless the
  split has two elements.
\<close>

definition determine_target_endpoint_try ::
  "endpoint_table \<Rightarrow> runtime \<Rightarrow> bytes \<Rightarrow> bool \<Rightarrow> exn + (pystr \<times> int) option" where
  "determine_target_endpoint_try API_ENDPOINTS rt data is_streaming =
     (if \<not> is_streaming then
        (case split_max1 (CRLF @ CRLF) data of
           [headers, payload_str] \<Rightarrow>
             (case json_loads rt payload_str of
                Inl e \<Rightarrow> Inl e
              | Inr payload \<Rightarrow>
                  (case parse_host_header rt (host_line headers) of
                     Inl e \<Rightarrow> Inl e
                   | Inr original \<Rightarrow>
                       (case find_target_endpoint API_ENDPOINTS payload of
                          Inl e \<Rightarrow> Inl e
                        | Inr target \<Rightarrow>
                            if no_host target then Inr original else Inr target)))
         | _ \<Rightarrow> Inl ValueError)
      else Inr None)"

text \<open>\<open>except: log\<close>, then \<open>return None, None\<close>.\<close>

definition determine_target_endpoint ::
  "endpoint_table \<Rightarrow> runtime \<Rightarrow> bytes \<Rightarrow> bool \<Rightarrow> exn + (pystr \<times> int) option" where
  "determine_target_endpoint API_ENDPOINTS rt data is_streaming =
     (case determine_target_endpoint_try API_ENDPOINTS rt data is_streaming of
        Inl e \<Rightarrow> Inr None
      | Inr r \<Rightarrow> Inr r)"

section \<open>Stream Classifier\<close>

text \<open>
  \<^verbatim>\<open>def is_stream(data): return b"Transfer-Encoding: chunked" in data\<close>
\<close>

definition is_stream :: "bytes \<Rightarrow> bool" where
  "is_stream data = contains ''Transfer-Encoding: chunked'' data"

section \<open>Sockets\<close>

text \<open>
  The two sockets of one connection and what the handler does to them.  The environment
  is scripted: \<open>client_rx\<close> and \<open>target_rx\<close> list what the successive \<open>recv\<close> calls on
  each socket give (a chunk of at most \<open>BUFFER_SIZE\<close> bytes, the empty chunk when the peer
  has closed, or an \<open>OSError\<close>); a \<open>recv\<close> with nothing left in its script never returns.
  \<open>client_tx\<close> and \<open>target_tx\<close> say how many \<open>sendall\<close> calls succeed before the socket
  fails (\<open>None\<close>: all of them).  \<open>dial\<close> says whether \<open>connect\<close> to an address succeeds.
  \<open>trace\<close> records every socket operation, oldest first.
\<close>

datatype side = Client | Target

datatype rx = Data bytes | Fail

datatype event =
  Recv side bytes | RecvFailed side
  | Sent side bytes | SendFailed side bytes
  | Connected pystr int | ConnectFailed pystr int
  | Closed side

datatype 'a outcome = Returned 'a | Raised exn | Blocked

record world =
  client_rx :: "rx list"
  target_rx :: "rx list"
  client_tx :: "nat option"
  target_tx :: "nat option"
  dial :: "pystr \<Rightarrow> int \<Rightarrow> bool"
  trace :: "event list"

fun other :: "side \<Rightarrow> side" where
  "other Client = Target"
| "other Target = Client"

fun rx_of :: "side \<Rightarrow> world \<Rightarrow> rx list" where
  "rx_of Client w = client_rx w"
| "rx_of Target w = target_rx w"

fun set_rx :: "side \<Rightarrow> rx list \<Rightarrow> world \<Rightarrow> world" where
  "set_rx Client r w = w\<lparr>client_rx := r\<rparr>"
| "set_rx Target r w = w\<lparr>target_rx := r\<rparr>"

fun tx_of :: "side \<Rightarrow> world \<Rightarrow> nat option" where
  "tx_of Client w = client_tx w"
| "tx_of Target w = target_tx w"

fun set_tx :: "side \<Rightarrow> nat option \<Rightarrow> world \<Rightarrow> world" where
  "set_tx Client t w = w\<lparr>client_tx := t\<rparr>"
| "set_tx Target t w = w\<lparr>target_tx := t\<rparr>"

definition log :: "event \<Rightarrow> world \<Rightarrow> world" where
  "log e w = w\<lparr>trace := trace w @ [e]\<rparr>"

text \<open>\<open>sock.recv(BUFFER_SIZE)\<close> on the socket of side \<open>s\<close>.\<close>

definition recv :: "side \<Rightarrow> world \<Rightarrow> bytes outcome \<times> world" where
  "recv s w =
     (case rx_of s w of
        [] \<Rightarrow> (Blocked, w)
      | Data b # rest \<Rightarrow> (Returned b, log (Recv s b) (set_rx s rest w))
      | Fail # rest \<Rightarrow> (Raised OSError, log (RecvFailed s) (set_rx s rest w)))"

text \<open>\<open>sock.sendall(b)\<close> on the socket of side \<open>s\<close>.\<close>

definition sendall :: "side \<Rightarrow> bytes \<Rightarrow> world \<Rightarrow> unit outcome \<times> world" where
  "sendall s b w =
     (case tx_of s w of
        None \<Rightarrow> (Returned (), log (Sent s b) w)
      | Some 0 \<Rightarrow> (Raised OSError, log (SendFailed s b) w)
      | Some (Suc n) \<Rightarrow> (Returned (), log (Sent s b) (set_tx s (Some n) w)))"

definition close :: "side \<Rightarrow> world \<Rightarrow> world" where
  "close s w = log (Closed s) w"

definition connect :: "pystr \<Rightarrow> int \<Rightarrow> world \<Rightarrow> unit outcome \<times> world" where
  "connect host port w =
     (if dial w host port then (Returned (), log (Connected host port) w)
      else (Raised OSError, log (ConnectFailed host port) w))"

lemma recv_shorter:
  "recv s w = (Returned b, w') \<Longrightarrow> length (rx_of s w') < length (rx_of s w)"
  by (cases s) (auto simp: recv_def log_def split: list.splits rx.splits)

lemma recv_other_rx:
  "recv s w = (r, w') \<Longrightarrow> rx_of (other s) w' = rx_of (other s) w"
  by (cases s) (auto simp: recv_def log_def split: list.splits rx.splits)

lemma sendall_rx:
  "sendall s b w = (r, w') \<Longrightarrow> rx_of s' w' = rx_of s' w"
  by (cases s; cases s') (auto simp: sendall_def log_def split: option.splits nat.splits)

section \<open>Relay Strategies\<close>

text \<open>
  One \<open>while\<close> loop of \<open>handle_regular_http\<close>, reading from \<open>src\<close> and writing to the
  other socket:
  \<^verbatim>\<open>
    while data:
        dst.sendall(data)
        data = src.recv(BUFFER_SIZE)
  \<close>
  Nothing is caught here: an exception leaves the loop and the function.
\<close>

function copy_loop :: "side \<Rightarrow> bytes \<Rightarrow> world \<Rightarrow> unit outcome \<times> world" where
  "copy_loop src data w =
     (if data \<noteq> [] then
        (case sendall (other src) data w of
           (Returned u, w1) \<Rightarrow>
             (case recv src w1 of
                (Returned data', w2) \<Rightarrow> copy_loop src data' w2
              | (Raised e, w2) \<Rightarrow> (Raised e, w2)
              | (Blocked, w2) \<Rightarrow> (Blocked, w2))
         | (Raised e, w1) \<Rightarrow> (Raised e, w1)
         | (Blocked, w1) \<Rightarrow> (Blocked, w1))
      else (Returned (), w))"
  by pat_completeness auto
termination
  by (relation "measure (\<lambda>(src, data, w). length (rx_of src w))")
    (auto dest!: recv_shorter [OF sym] simp: sendall_rx [OF sym])

declare copy_loop.simps [simp del]

text \<open>
  \<^verbatim>\<open>
    data = client_socket.recv(BUFFER_SIZE)
    while data: ...
    response = target_socket.recv(BUFFER_SIZE)
    while response: ...
  \<close>
\<close>

definition handle_regular_http :: "world \<Rightarrow> unit outcome \<times> world" where
  "handle_regular_http w =
     (case recv Client w of
        (Returned data, w1) \<Rightarrow>
          (case copy_loop Client data w1 of
             (Returned u, w2) \<Rightarrow>
               (case recv Target w2 of
                  (Returned response, w3) \<Rightarrow> copy_loop Target response w3
                | (Raised e, w3) \<Rightarrow> (Raised e, w3)
                | (Blocked, w3) \<Rightarrow> (Blocked, w3))
           | (Raised e, w2) \<Rightarrow> (Raised e, w2)
           | (Blocked, w2) \<Rightarrow> (Blocked, w2))
      | (Raised e, w1) \<Rightarrow> (Raised e, w1)
      | (Blocked, w1) \<Rightarrow> (Blocked, w1))"

text \<open>
  \<^verbatim>\<open>
    while True:
        try:
            data = client_socket.recv(BUFFER_SIZE)
            if not data: break
            target_socket.sendall(data)
            response = target_socket.recv(BUFFER_SIZE)
            if not response: break
            client_socket.sendall(response)
        except:
            break
  \<close>
\<close>

function handle_streaming :: "world \<Rightarrow> unit outcome \<times> world" where
  "handle_streaming w =
     (case recv Client w of
        (Returned data, w1) \<Rightarrow>
          if data = [] then (Returned (), w1)
          else
            (case sendall Target data w1 of
               (Returned u, w2) \<Rightarrow>
                 (case recv Target w2 of
                    (Returned response, w3) \<Rightarrow>
                      if response = [] then (Returned (), w3)
                      else
                        (case sendall Client response w3 of
                           (Returned u', w4) \<Rightarrow> handle_streaming w4
                         | (Raised e, w4) \<Rightarrow> (Returned (), w4)
                         | (Blocked, w4) \<Rightarrow> (Blocked, w4))
                  | (Raised e, w3) \<Rightarrow> (Returned (), w3)
                  | (Blocked, w3) \<Rightarrow> (Blocked, w3))
             | (Raised e, w2) \<Rightarrow> (Returned (), w2)
             | (Blocked, w2) \<Rightarrow> (Blocked, w2))
      | (Raised e, w1) \<Rightarrow> (Returned (), w1)
      | (Blocked, w1) \<Rightarrow> (Blocked, w1))"
  by pat_completeness auto
termination
  by (relation "measure (\<lambda>w. length (client_rx w))")
    (auto dest!: recv_shorter [OF sym] simp: sendall_rx [OF sym, of _ _ _ _ _ Client, simplified]
       recv_other_rx [OF sym, of _ _ Target, simplified])

declare handle_streaming.simps [simp del]

section \<open>Connection Handler\<close>

text \<open>
  The body of the \<open>with socket.socket(...) as target_socket:\<close> block:
  \<^verbatim>\<open>
    target_socket.connect((target_host, target_port))
    target_socket.sendall(data)
    if is_streaming: handle_streaming(client_socket, target_socket)
    else: handle_regular_http(client_socket, target_socket)
  \<close>
\<close>

definition forward ::
  "bytes \<Rightarrow> bool \<Rightarrow> pystr \<Rightarrow> int \<Rightarrow> world \<Rightarrow> unit outcome \<times> world" where
  "forward data is_streaming host port w =
     (case connect host port w of
        (Returned u, w1) \<Rightarrow>
          (case sendall Target data w1 of
             (Returned u', w2) \<Rightarrow>
               if is_streaming then handle_streaming w2 else handle_regular_http w2
           | (Raised e, w2) \<Rightarrow> (Raised e, w2)
           | (Blocked, w2) \<Rightarrow> (Blocked, w2))
      | (Raised e, w1) \<Rightarrow> (Raised e, w1)
      | (Blocked, w1) \<Rightarrow> (Blocked, w1))"

text \<open>Leaving the \<open>with\<close> block, normally or by an exception, closes the target socket.\<close>

definition with_target_socket ::
  "(world \<Rightarrow> unit outcome \<times> world) \<Rightarrow> world \<Rightarrow> unit outcome \<times> world" where
  "with_target_socket body w =
     (case body w of
        (Blocked, w') \<Rightarrow> (Blocked, w')
      | (r, w') \<Rightarrow> (r, close Target w'))"

text \<open>
  The \<open>try\<close> block of \<open>handle_client\<close>.  \<open>if not target_host\<close> holds for \<open>None\<close> and for
  the empty string.
\<close>

definition handle_client_try ::
  "endpoint_table \<Rightarrow> runtime \<Rightarrow> world \<Rightarrow> unit outcome \<times> world" where
  "handle_client_try API_ENDPOINTS rt w =
     (case recv Client w of
        (Returned data, w1) \<Rightarrow>
          if data = [] then (Returned (), close Client w1)
          else
            (let is_streaming = is_stream data in
             case determine_target_endpoint API_ENDPOINTS rt data is_streaming of
               Inl e \<Rightarrow> (Raised e, w1)
             | Inr None \<Rightarrow> (Returned (), close Client w1)
             | Inr (Some (host, port)) \<Rightarrow>
                 if host = [] then (Returned (), close Client w1)
                 else with_target_socket (forward data is_streaming host port) w1)
      | (Raised e, w1) \<Rightarrow> (Raised e, w1)
      | (Blocked, w1) \<Rightarrow> (Blocked, w1))"

text \<open>
  \<open>except Exception: log\<close> and \<open>finally: client_socket.close()\<close>: whatever the block did,
  short of never returning, the client socket is closed and the handler returns.
\<close>

definition handle_client ::
  "endpoint_table \<Rightarrow> runtime \<Rightarrow> world \<Rightarrow> unit outcome \<times> world" where
  "handle_client API_ENDPOINTS rt w =
     (case handle_client_try API_ENDPOINTS rt w of
        (Blocked, w') \<Rightarrow> (Blocked, w')
      | (r, w') \<Rightarrow> (Returned (), close Client w'))"

section \<open>Vocabulary of the specification\<close>

text \<open>
  \<open>first_cut sep s a b\<close>: \<open>s\<close> splits on the first occurrence of \<open>sep\<close> into \<open>a\<close> before
  it and \<open>b\<close> after it.
\<close>

definition first_cut :: "'a list \<Rightarrow> 'a list \<Rightarrow> 'a list \<Rightarrow> 'a list \<Rightarrow> bool" where
  "first_cut sep s a b =
     (s = a @ sep @ b \<and> (\<forall>pre post. s = pre @ sep @ post \<longrightarrow> length a \<le> length pre))"

text \<open>
  A rule matches a document when its \<open>match_field\<close> is present in the document with a
  value equal to its \<open>match_value\<close>.
\<close>

definition rule_matches :: "(pystr \<times> json) list \<Rightarrow> endpoint_rule \<Rightarrow> bool" where
  "rule_matches d r = (map_of d (match_field r) = Some (JStr (match_value r)))"

fun is_dict :: "json \<Rightarrow> bool" where
  "is_dict (JDict d) = True"
| "is_dict v = False"

text \<open>
  Projections of a trace: the chunks written to a socket, those whose write failed, the
  non-empty chunks read from a socket, and all the chunks read from it.
\<close>

fun sent_to :: "side \<Rightarrow> event list \<Rightarrow> bytes list" where
  "sent_to s [] = []"
| "sent_to s (Sent s' b # es) = (if s' = s then b # sent_to s es else sent_to s es)"
| "sent_to s (e # es) = sent_to s es"

fun failed_to :: "side \<Rightarrow> event list \<Rightarrow> bytes list" where
  "failed_to s [] = []"
| "failed_to s (SendFailed s' b # es) = (if s' = s then b # failed_to s es else failed_to s es)"
| "failed_to s (e # es) = failed_to s es"

fun chunks :: "side \<Rightarrow> event list \<Rightarrow> bytes list" where
  "chunks s [] = []"
| "chunks s (Recv s' b # es) = (if s' = s \<and> b \<noteq> [] then b # chunks s es else chunks s es)"
| "chunks s (e # es) = chunks s es"

fun reads :: "side \<Rightarrow> event list \<Rightarrow> bytes list" where
  "reads s [] = []"
| "reads s (Recv s' b # es) = (if s' = s then b # reads s es else reads s es)"
| "reads s (e # es) = reads s es"

text \<open>A zero-length read or an I/O error.\<close>

fun stop_event :: "event \<Rightarrow> bool" where
  "stop_event (Recv s b) = (b = [])"
| "stop_event (RecvFailed s) = True"
| "stop_event (SendFailed s b) = True"
| "stop_event e = False"

text \<open>The socket accepts at least \<open>n\<close> more \<open>sendall\<close> calls.\<close>

fun enough :: "nat option \<Rightarrow> nat \<Rightarrow> bool" where
  "enough None n = True"
| "enough (Some k) n = (n \<le> k)"

subsection \<open>Auxiliary definitions of the proofs\<close>

text \<open>A first \<open>recv\<close> followed by the loop it feeds.\<close>

definition drain :: "side \<Rightarrow> world \<Rightarrow> unit outcome \<times> world" where
  "drain src w =
     (case recv src w of
        (Returned d, w1) \<Rightarrow> copy_loop src d w1
      | (Raised e, w1) \<Rightarrow> (Raised e, w1)
      | (Blocked, w1) \<Rightarrow> (Blocked, w1))"

text \<open>The trace of copying the chunks \<open>cs\<close> from \<open>src\<close> up to its zero-length read.\<close>

definition exchange :: "side \<Rightarrow> bytes list \<Rightarrow> event list" where
  "exchange src cs = concat (map (\<lambda>c. [Recv src c, Sent (other src) c]) cs) @ [Recv src []]"

text \<open>
  The shape of a trace of one copying phase of \<open>handle_regular_http\<close> that reads from
  \<open>s\<close> and ends with outcome \<open>r\<close>.
\<close>

fun drain_trace :: "side \<Rightarrow> unit outcome \<Rightarrow> event list \<Rightarrow> bool" where
  "drain_trace s r [] = (r = Blocked)"
| "drain_trace s r [e] =
     ((e = Recv s [] \<and> r = Returned ()) \<or> (e = RecvFailed s \<and> r = Raised OSError))"
| "drain_trace s r (e # e' # es) =
     (case e of
        Recv s' b \<Rightarrow>
          s' = s \<and> b \<noteq> []
          \<and> (if e' = Sent (other s) b then drain_trace s r es
              else e' = SendFailed (other s) b \<and> es = [] \<and> r = Raised OSError)
      | _ \<Rightarrow> False)"

text \<open>
  The shape of a trace of \<open>handle_streaming\<close> that reads from \<open>s\<close> next and ends with
  outcome \<open>r\<close>.
\<close>

fun relay_trace :: "side \<Rightarrow> unit outcome \<Rightarrow> event list \<Rightarrow> bool" where
  "relay_trace s r [] = (r = Blocked)"
| "relay_trace s r [e] = (r = Returned () \<and> (e = Recv s [] \<or> e = RecvFailed s))"
| "relay_trace s r (e # e' # es) =
     (case e of
        Recv s' b \<Rightarrow>
          s' = s \<and> b \<noteq> []
          \<and> (if e' = Sent (other s) b then relay_trace (other s) r es
              else e' = SendFailed (other s) b \<and> es = [] \<and> r = Returned ())
      | _ \<Rightarrow> False)"

section \<open>Sample inputs\<close>

text \<open>
  The endpoint table of the repository's tests, a table whose only rule has an empty
  target host, request bodies, and a runtime that answers on these bodies as Python's
  \<open>json.loads\<close> does and rejects every other body.
\<close>

definition sample_table :: endpoint_table where
  "sample_table =
     [(ascii ''api1'',
       \<lparr>match_field = ascii ''field1'', match_value = ascii ''value1'',
        target_host = ascii ''api1.example.com'', target_port = 80\<rparr>),
      (ascii ''api2'',
       \<lparr>match_field = ascii ''field2'', match_value = ascii ''value2'',
        target_host = ascii ''api2.example.com'', target_port = 8080\<rparr>)]"

definition blank_host_table :: endpoint_table where
  "blank_host_table =
     [(ascii ''api1'',
       \<lparr>match_field = ascii ''field1'', match_value = ascii ''value1'',
        target_host = [], target_port = 8080\<rparr>)]"

definition body_value1 :: bytes where
  "body_value1 = ''{\"field1\": \"value1\"}''"

definition body_value2 :: bytes where
  "body_value2 = ''{\"field1\": \"value2\"}''"

definition body_both :: bytes where
  "body_both = ''{\"field1\": \"value1\", \"field2\": \"value2\"}''"

definition body_list :: bytes where
  "body_list = ''[1, 2]''"

definition doc_value1 :: "(pystr \<times> json) list" where
  "doc_value1 = [(ascii ''field1'', JStr (ascii ''value1''))]"

definition doc_value2 :: "(pystr \<times> json) list" where
  "doc_value2 = [(ascii ''field1'', JStr (ascii ''value2''))]"

definition doc_both :: "(pystr \<times> json) list" where
  "doc_both =
     [(ascii ''field1'', JStr (ascii ''value1'')), (ascii ''field2'', JStr (ascii ''value2''))]"

definition sample_loads :: "bytes \<Rightarrow> exn + json" where
  "sample_loads b =
     (if b = body_value1 then Inr (JDict doc_value1)
      else if b = body_value2 then Inr (JDict doc_value2)
      else if b = body_both then Inr (JDict doc_both)
      else if b = body_list then Inr (JList [JInt 1, JInt 2])
      else Inl JSONDecodeError)"

definition sample_runtime :: runtime where
  "sample_runtime =
     \<lparr>json_loads = sample_loads,
      to_decimal = (\<lambda>c. if 0x660 \<le> c \<and> c \<le> 0x669 then Some (c - 0x660) else None),
      max_str_digits = 4300\<rparr>"

definition request_head :: bytes where
  "request_head =
     ''POST /api/endpoint HTTP/1.1'' @ CRLF @ ''Host: example.com:9090'' @ CRLF
     @ ''Content-Type: application/json''"

definition request :: "bytes \<Rightarrow> bytes" where
  "request body = request_head @ CRLF @ CRLF @ body"

definition sample_world :: "rx list \<Rightarrow> rx list \<Rightarrow> nat option \<Rightarrow> bool \<Rightarrow> world" where
  "sample_world crx trx ttx reachable =
     \<lparr>client_rx = crx, target_rx = trx, client_tx = None, target_tx = ttx,
      dial = (\<lambda>host port. reachable), trace = []\<rparr>"

section \<open>Properties\<close>

subsection \<open>Searching and splitting\<close>

lemma contains_iff: "contains sub s \<longleftrightarrow> (\<exists>pre post. s = pre @ sub @ post)"
proof (induction s)
  case Nil
  show ?case by auto
next
  case (Cons x xs)
  show ?case
  proof
    assume "contains sub (x # xs)"
    then consider "prefix sub (x # xs)" | "contains sub xs" by auto
    then show "\<exists>pre post. x # xs = pre @ sub @ post"
    proof cases
      case 1
      then obtain post where "x # xs = sub @ post" by (auto simp: prefix_def)
      then have "x # xs = [] @ sub @ post" by simp
      then show ?thesis by blast
    next
      case 2
      with Cons.IH obtain pre post where "xs = pre @ sub @ post" by blast
      then have "x # xs = (x # pre) @ sub @ post" by simp
      then show ?thesis by blast
    qed
  next
    assume "\<exists>pre post. x # xs = pre @ sub @ post"
    then obtain pre post where eq: "x # xs = pre @ sub @ post" by blast
    show "contains sub (x # xs)"
    proof (cases pre)
      case Nil
      with eq have "prefix sub (x # xs)" by (simp add: prefix_def)
      then show ?thesis by simp
    next
      case (Cons p ps)
      with eq have "xs = ps @ sub @ post" by simp
      with Cons.IH have "contains sub xs" by blast
      then show ?thesis by simp
    qed
  qed
qed

lemma find_sep_None_iff: "sep \<noteq> [] \<Longrightarrow> find_sep sep s = None \<longleftrightarrow> \<not> contains sep s"
  by (induction s) auto

lemma find_sep_sound: "find_sep sep s = Some (a, b) \<Longrightarrow> s = a @ sep @ b"
proof (induction s arbitrary: a)
  case Nil
  then show ?case by simp
next
  case (Cons x xs)
  show ?case
  proof (cases "prefix sep (x # xs)")
    case True
    with Cons.prems have "a = []" "b = drop (length sep) (x # xs)" by auto
    moreover from True obtain r where "x # xs = sep @ r" by (auto simp: prefix_def)
    ultimately show ?thesis by simp
  next
    case False
    with Cons.prems obtain a' where "find_sep sep xs = Some (a', b)" "a = x # a'"
      by (auto split: prod.splits)
    with Cons.IH show ?thesis by simp
  qed
qed

lemma find_sep_least:
  "find_sep sep s = Some (a, b) \<Longrightarrow> s = pre @ sep @ post \<Longrightarrow> length a \<le> length pre"
proof (induction s arbitrary: a pre)
  case Nil
  then show ?case by simp
next
  case (Cons x xs)
  show ?case
  proof (cases "prefix sep (x # xs)")
    case True
    with Cons.prems(1) have "a = []" by simp
    then show ?thesis by simp
  next
    case False
    with Cons.prems(1) obtain a' where a': "find_sep sep xs = Some (a', b)" "a = x # a'"
      by (auto split: prod.splits)
    from False Cons.prems(2) have "pre \<noteq> []" by (auto simp: prefix_def)
    then obtain p ps where pre: "pre = p # ps" by (cases pre) auto
    with Cons.prems(2) have "xs = ps @ sep @ post" by simp
    with Cons.IH a'(1) have "length a' \<le> length ps" by blast
    with a'(2) pre show ?thesis by simp
  qed
qed

text \<open>\<open>find_sep\<close> computes the cut at the first occurrence of a non-empty separator.\<close>

lemma find_sep_first_cut:
  assumes "sep \<noteq> []"
  shows "find_sep sep s = Some (a, b) \<longleftrightarrow> first_cut sep s a b"
proof
  assume "find_sep sep s = Some (a, b)"
  then show "first_cut sep s a b"
    unfolding first_cut_def by (blast intro: find_sep_sound find_sep_least)
next
  assume fc: "first_cut sep s a b"
  then have "contains sep s" unfolding first_cut_def contains_iff by blast
  with assms have "find_sep sep s \<noteq> None" by (simp add: find_sep_None_iff)
  then obtain a' b' where f: "find_sep sep s = Some (a', b')" by auto
  then have s: "s = a' @ sep @ b'" by (rule find_sep_sound)
  from f fc have "length a' \<le> length a"
    unfolding first_cut_def by (blast intro: find_sep_least)
  moreover from fc s have "length a \<le> length a'" unfolding first_cut_def by blast
  ultimately have "length a = length a'" by simp
  with fc s have "a = a' \<and> b = b'"
    unfolding first_cut_def by (metis append_eq_append_conv same_append_eq)
  with f show "find_sep sep s = Some (a, b)" by simp
qed

lemma CRLF2_nonempty: "CRLF @ CRLF \<noteq> []"
  by (simp add: CRLF_def)

subsection \<open>Stream Classifier\<close>

text \<open>
  Claim C2.  For every byte sequence, the Stream Classifier returns true exactly when the
  sequence contains the literal \<open>Transfer-Encoding: chunked\<close>, that is when it can be cut
  into a part before the marker, the marker, and a part after it.  The classifier is a
  function of its argument alone and has a value at every byte sequence.
\<close>

theorem is_stream_iff_marker:
  "is_stream data = (\<exists>pre post. data = pre @ ''Transfer-Encoding: chunked'' @ post)"
  by (simp add: is_stream_def contains_iff)

subsection \<open>Host Header Parser\<close>

lemmas host_header_eval =
  parse_host_header_def parse_host_header_try_def decode_def ascii_def index_def strip_def
  is_space_def py_int_def int_space_def digit_or_underscore_def digit_of_def
  decimal_value_def List.map_filter_def Let_def suffix_to_prefix split_all.simps utf8.simps

text \<open>\<open>int\<close> rejects a string with a character that is no digit, sign, underscore or space.\<close>

lemma py_int_rejects:
  assumes "c \<in> set s" "\<not> digit_or_underscore rt c" "\<not> int_space c" "c \<noteq> 43" "c \<noteq> 45"
  shows "py_int rt s = Inl ValueError"
proof -
  define s1 where "s1 = dropWhile int_space s"
  define s2 where "s2 = (case s1 of c # r \<Rightarrow> if c = 45 \<or> c = 43 then r else s1 | [] \<Rightarrow> [])"
  define rest where "rest = dropWhile (digit_or_underscore rt) s2"
  have "s = takeWhile int_space s @ s1" by (simp add: s1_def)
  then have "c \<in> set (takeWhile int_space s) \<or> c \<in> set s1"
    using assms(1) by (metis Un_iff set_append)
  then have c1: "c \<in> set s1" using assms(3) by (auto dest: set_takeWhileD)
  then have c2: "c \<in> set s2" using assms(4,5) by (cases s1) (auto simp: s2_def)
  have "s2 = takeWhile (digit_or_underscore rt) s2 @ rest" by (simp add: rest_def)
  then have "c \<in> set (takeWhile (digit_or_underscore rt) s2) \<or> c \<in> set rest"
    using c2 by (metis Un_iff set_append)
  then have "c \<in> set rest" using assms(2) by (auto dest: set_takeWhileD)
  then have "\<not> list_all int_space rest" using assms(3) by (auto simp: list_all_iff)
  then show ?thesis
    unfolding py_int_def Let_def s1_def [symmetric] s2_def [symmetric] rest_def [symmetric]
    by simp
qed

text \<open>\<open>int\<close> reads a plain run of ASCII digits as its decimal value.\<close>

lemma py_int_digits:
  assumes "ds \<noteq> []" "\<forall>d\<in>set ds. d < 10" "length ds \<le> 640"
  shows "py_int rt (map (\<lambda>d. 48 + d) ds) = Inr (int (decimal_value ds))"
proof -
  let ?s = "map (\<lambda>d. 48 + d) ds"
  have sp: "\<forall>c\<in>set ?s. \<not> int_space c" using assms(2) by (auto simp: int_space_def)
  have dg: "\<forall>c\<in>set ?s. digit_or_underscore rt c"
    using assms(2) by (auto simp: digit_or_underscore_def digit_of_def)
  have ne: "?s \<noteq> []" using assms(1) by simp
  have s1: "dropWhile int_space ?s = ?s" using sp ne by (cases ds) auto
  have hd: "\<And>c r. ?s = c # r \<Longrightarrow> c \<noteq> 45 \<and> c \<noteq> 43 \<and> c \<noteq> 95"
    using assms(2) by (cases ds) auto
  have body: "takeWhile (digit_or_underscore rt) ?s = ?s"
    using dg by (simp add: takeWhile_eq_all_conv)
  have rest: "dropWhile (digit_or_underscore rt) ?s = []"
    using dg by (simp add: dropWhile_eq_Nil_conv)
  have no95: "95 \<notin> set ?s" using assms(2) by auto
  have mf: "List.map_filter (digit_of rt) ?s = ds"
    using assms(2) by (induction ds) (auto simp: List.map_filter_def digit_of_def)
  have p: "\<not> prefix [95] ?s" using no95 by (cases ds) auto
  have sf: "\<not> suffix [95] ?s"
  proof
    assume "suffix [95] ?s"
    then obtain zs where "?s = zs @ [95]" by (auto simp: suffix_def)
    then have "95 \<in> set ?s" by (metis in_set_conv_decomp)
    with no95 show False by blast
  qed
  have ct: "\<not> contains [95, 95] ?s"
  proof
    assume "contains [95, 95] ?s"
    then obtain pre post where "?s = pre @ 95 # 95 # post" by (auto simp: contains_iff)
    then have "95 \<in> set ?s" by (metis in_set_conv_decomp)
    with no95 show False by blast
  qed
  have s2: "(case ?s of c # r \<Rightarrow> if c = 45 \<or> c = 43 then r else ?s | [] \<Rightarrow> []) = ?s"
    using hd by (cases ?s) auto
  have neg: "(case ?s of c # _ \<Rightarrow> c = 45 | [] \<Rightarrow> False) = False"
    using hd by (cases ?s) auto
  show ?thesis
    unfolding py_int_def Let_def s1 s2 neg body rest mf
    using ne assms(3) p sf ct by simp
qed

lemma parse_host_header_returns: "\<exists>r. parse_host_header rt h = Inr r"
  by (simp add: parse_host_header_def split: sum.splits)

text \<open>Cutting at a one-character separator: the number of fields.\<close>

lemma contains_single: "contains [c] s \<longleftrightarrow> c \<in> set s"
  by (auto simp: contains_iff in_set_conv_decomp)

lemma split_all_nonempty: "split_all sep s \<noteq> []"
  by (subst split_all.simps) (simp split: option.splits)

lemma split_all_single_length: "(length (split_all [c] s) < 2) = (c \<notin> set s)"
proof (cases "c \<in> set s")
  case True
  then have "find_sep [c] s \<noteq> None" by (simp add: find_sep_None_iff contains_single)
  then obtain a b where "find_sep [c] s = Some (a, b)" by auto
  then have "split_all [c] s = a # split_all [c] b" by (subst split_all.simps) simp
  moreover have "split_all [c] b \<noteq> []" by (rule split_all_nonempty)
  ultimately have "2 \<le> length (split_all [c] s)" by (cases "split_all [c] b") simp_all
  with True show ?thesis by simp
next
  case False
  then have "find_sep [c] s = None" by (simp add: find_sep_None_iff contains_single)
  then have "split_all [c] s = [s]" by (subst split_all.simps) simp
  with False show ?thesis by simp
qed

text \<open>
  The claim as the specification states it fails: in \<open>Host: :8080\<close> and in \<open>Host: \<close> the
  host segment is blank, and the parser does not yield none; it returns the empty host
  with the port.
\<close>

theorem host_header_blank_host_counterexample:
  "strip (split_all (ascii '':'') (ascii ''Host: :8080'') ! 1) = []
   \<and> parse_host_header sample_runtime ''Host: :8080'' = Inr (Some ([], 8080))
   \<and> strip (split_all (ascii '':'') (ascii ''Host: '') ! 1) = []
   \<and> parse_host_header sample_runtime ''Host: '' = Inr (Some ([], 80))"
  by (simp add: host_header_eval)

text \<open>
  Claim C5, as amended.  The Host Header Parser decodes the line and cuts it at every
  colon; the host segment is the second field and the port segment the third.
  \<open>Host: example.com:9090\<close> yields \<open>(example.com, 9090)\<close> and \<open>Host: example.com\<close> yields
  \<open>(example.com, 80)\<close>.  For every line: with no port segment the port is 80; with a
  port segment that \<open>int\<close> accepts the port is that integer; in both cases the host is
  the stripped host segment, and a host segment that is blank is not rejected: the parser
  returns the empty host with the port, so \<open>Host: \<close> yields \<open>('', 80)\<close> and
  \<open>Host: :8080\<close> yields \<open>('', 8080)\<close>.  The parser yields none when the line has no
  host field at all, which is exactly when it has no colon (58 is the colon), as in the
  empty line that stands for a request without a \<open>Host:\<close> line; when the port segment is
  not numeric (\<open>int\<close> rejects it, as it does whenever the segment has a character that
  is not a digit, a sign, an underscore or white space); and when the line is not valid
  UTF-8.  The parser never raises.
\<close>

theorem host_header_parser_segments:
  "parse_host_header rt ''Host: example.com:9090'' = Inr (Some (ascii ''example.com'', 9090))
   \<and> parse_host_header rt ''Host: example.com'' = Inr (Some (ascii ''example.com'', 80))
   \<and> parse_host_header rt ''Host: '' = Inr (Some ([], 80))
   \<and> parse_host_header rt ''Host: :8080'' = Inr (Some ([], 8080))
   \<and> (\<forall>text. decode line = Inr text \<longrightarrow>
        (let fields = split_all (ascii '':'') text in
           (length fields = 2 \<longrightarrow>
              parse_host_header rt line = Inr (Some (strip (fields ! 1), 80)))
         \<and> (\<forall>n. 2 < length fields \<and> py_int rt (strip (fields ! 2)) = Inr n \<longrightarrow>
              parse_host_header rt line = Inr (Some (strip (fields ! 1), n)))
         \<and> (length fields = 2 \<and> strip (fields ! 1) = [] \<longrightarrow>
              parse_host_header rt line = Inr (Some ([], 80)))
         \<and> (\<forall>n. 2 < length fields \<and> strip (fields ! 1) = []
                \<and> py_int rt (strip (fields ! 2)) = Inr n \<longrightarrow>
              parse_host_header rt line = Inr (Some ([], n)))
         \<and> (length fields < 2) = (58 \<notin> set text)
         \<and> (length fields < 2 \<longrightarrow> parse_host_header rt line = Inr None)
         \<and> (\<forall>e. 2 < length fields \<and> py_int rt (strip (fields ! 2)) = Inl e \<longrightarrow>
              parse_host_header rt line = Inr None)
         \<and> (\<forall>c. 2 < length fields \<and> c \<in> set (strip (fields ! 2))
                \<and> \<not> digit_or_underscore rt c \<and> \<not> int_space c \<and> c \<noteq> 43 \<and> c \<noteq> 45 \<longrightarrow>
              parse_host_header rt line = Inr None)))
   \<and> (\<forall>e. decode line = Inl e \<longrightarrow> parse_host_header rt line = Inr None)
   \<and> parse_host_header rt [] = Inr None
   \<and> (\<exists>r. parse_host_header rt line = Inr r)"
proof (intro conjI)
  show "parse_host_header rt ''Host: example.com:9090''
      = Inr (Some (ascii ''example.com'', 9090))"
    by (simp add: host_header_eval)
  show "parse_host_header rt ''Host: example.com'' = Inr (Some (ascii ''example.com'', 80))"
    by (simp add: host_header_eval)
  show "parse_host_header rt ''Host: '' = Inr (Some ([], 80))"
    by (simp add: host_header_eval)
  show "parse_host_header rt ''Host: :8080'' = Inr (Some ([], 8080))"
    by (simp add: host_header_eval)
  show "\<forall>text. decode line = Inr text \<longrightarrow>
        (let fields = split_all (ascii '':'') text in
           (length fields = 2 \<longrightarrow>
              parse_host_header rt line = Inr (Some (strip (fields ! 1), 80)))
         \<and> (\<forall>n. 2 < length fields \<and> py_int rt (strip (fields ! 2)) = Inr n \<longrightarrow>
              parse_host_header rt line = Inr (Some (strip (fields ! 1), n)))
         \<and> (length fields = 2 \<and> strip (fields ! 1) = [] \<longrightarrow>
              parse_host_header rt line = Inr (Some ([], 80)))
         \<and> (\<forall>n. 2 < length fields \<and> strip (fields ! 1) = []
                \<and> py_int rt (strip (fields ! 2)) = Inr n \<longrightarrow>
              parse_host_header rt line = Inr (Some ([], n)))
         \<and> (length fields < 2) = (58 \<notin> set text)
         \<and> (length fields < 2 \<longrightarrow> parse_host_header rt line = Inr None)
         \<and> (\<forall>e. 2 < length fields \<and> py_int rt (strip (fields ! 2)) = Inl e \<longrightarrow>
              parse_host_header rt line = Inr None)
         \<and> (\<forall>c. 2 < length fields \<and> c \<in> set (strip (fields ! 2))
                \<and> \<not> digit_or_underscore rt c \<and> \<not> int_space c \<and> c \<noteq> 43 \<and> c \<noteq> 45 \<longrightarrow>
              parse_host_header rt line = Inr None))"
  proof (intro allI, rule impI)
    fix t
    assume d: "decode line = Inr t"
    let ?fields = "split_all (ascii '':'') t"
    have rejected: "parse_host_header rt line = Inr None"
      if "2 < length ?fields" "py_int rt (strip (?fields ! 2)) = Inl e" for e
      using that d by (simp add: parse_host_header_def parse_host_header_try_def index_def)
    have chars: "parse_host_header rt line = Inr None"
      if "2 < length ?fields \<and> c \<in> set (strip (?fields ! 2))
          \<and> \<not> digit_or_underscore rt c \<and> \<not> int_space c \<and> c \<noteq> 43 \<and> c \<noteq> 45" for c
    proof -
      from that have "py_int rt (strip (?fields ! 2)) = Inl ValueError"
        by (intro py_int_rejects [of c]) simp_all
      with that show ?thesis by (intro rejected) simp_all
    qed
    have no_port: "length ?fields = 2 \<longrightarrow>
        parse_host_header rt line = Inr (Some (strip (?fields ! 1), 80))"
      using d by (simp add: parse_host_header_def parse_host_header_try_def index_def)
    have port: "\<forall>n. 2 < length ?fields \<and> py_int rt (strip (?fields ! 2)) = Inr n \<longrightarrow>
        parse_host_header rt line = Inr (Some (strip (?fields ! 1), n))"
      using d by (simp add: parse_host_header_def parse_host_header_try_def index_def)
    have blank: "length ?fields = 2 \<and> strip (?fields ! 1) = [] \<longrightarrow>
        parse_host_header rt line = Inr (Some ([], 80))"
      using no_port by auto
    have blank_port: "\<forall>n. 2 < length ?fields \<and> strip (?fields ! 1) = []
        \<and> py_int rt (strip (?fields ! 2)) = Inr n \<longrightarrow>
        parse_host_header rt line = Inr (Some ([], n))"
      using port by auto
    have colon: "(length ?fields < 2) = (58 \<notin> set t)"
      using split_all_single_length [of 58 t] by (simp add: ascii_def)
    have absent: "length ?fields < 2 \<longrightarrow> parse_host_header rt line = Inr None"
      using d by (simp add: parse_host_header_def parse_host_header_try_def index_def)
    have bad_port: "\<forall>e. 2 < length ?fields \<and> py_int rt (strip (?fields ! 2)) = Inl e \<longrightarrow>
        parse_host_header rt line = Inr None"
      using rejected by blast
    have bad_char: "\<forall>c. 2 < length ?fields \<and> c \<in> set (strip (?fields ! 2))
        \<and> \<not> digit_or_underscore rt c \<and> \<not> int_space c \<and> c \<noteq> 43 \<and> c \<noteq> 45 \<longrightarrow>
        parse_host_header rt line = Inr None"
      using chars by blast
    show "let fields = split_all (ascii '':'') t in
           (length fields = 2 \<longrightarrow>
              parse_host_header rt line = Inr (Some (strip (fields ! 1), 80)))
         \<and> (\<forall>n. 2 < length fields \<and> py_int rt (strip (fields ! 2)) = Inr n \<longrightarrow>
              parse_host_header rt line = Inr (Some (strip (fields ! 1), n)))
         \<and> (length fields = 2 \<and> strip (fields ! 1) = [] \<longrightarrow>
              parse_host_header rt line = Inr (Some ([], 80)))
         \<and> (\<forall>n. 2 < length fields \<and> strip (fields ! 1) = []
                \<and> py_int rt (strip (fields ! 2)) = Inr n \<longrightarrow>
              parse_host_header rt line = Inr (Some ([], n)))
         \<and> (length fields < 2) = (58 \<notin> set t)
         \<and> (length fields < 2 \<longrightarrow> parse_host_header rt line = Inr None)
         \<and> (\<forall>e. 2 < length fields \<and> py_int rt (strip (fields ! 2)) = Inl e \<longrightarrow>
              parse_host_header rt line = Inr None)
         \<and> (\<forall>c. 2 < length fields \<and> c \<in> set (strip (fields ! 2))
                \<and> \<not> digit_or_underscore rt c \<and> \<not> int_space c \<and> c \<noteq> 43 \<and> c \<noteq> 45 \<longrightarrow>
              parse_host_header rt line = Inr None)"
      unfolding Let_def
      by (intro conjI no_port port blank blank_port colon absent bad_port bad_char)
  qed
  show "\<forall>e. decode line = Inl e \<longrightarrow> parse_host_header rt line = Inr None"
    by (simp add: parse_host_header_def parse_host_header_try_def)
  show "parse_host_header rt [] = Inr None"
    by (simp add: host_header_eval)
  show "\<exists>r. parse_host_header rt line = Inr r"
    by (rule parse_host_header_returns)
qed

theorem host_header_parser_witness:
  "parse_host_header sample_runtime ''Host: localhost: 8080 ''
     = Inr (Some (ascii ''localhost'', 8080))
   \<and> parse_host_header sample_runtime ''Host: localhost'' = Inr (Some (ascii ''localhost'', 80))
   \<and> parse_host_header sample_runtime ''Host: : 443'' = Inr (Some ([], 443))
   \<and> parse_host_header sample_runtime ''Host'' = Inr None
   \<and> parse_host_header sample_runtime ''Host: localhost:80a'' = Inr None"
proof -
  have dec: "decode ''Host: localhost: 8080 '' = Inr (ascii ''Host: localhost: 8080 '')"
    "decode ''Host: localhost'' = Inr (ascii ''Host: localhost'')"
    "decode ''Host: : 443'' = Inr (ascii ''Host: : 443'')"
    "decode ''Host'' = Inr (ascii ''Host'')"
    "decode ''Host: localhost:80a'' = Inr (ascii ''Host: localhost:80a'')"
    by (simp_all add: decode_def ascii_def utf8.simps)
  have fields:
    "split_all (ascii '':'') (ascii ''Host: localhost: 8080 '')
       = [ascii ''Host'', ascii '' localhost'', ascii '' 8080 '']"
    "split_all (ascii '':'') (ascii ''Host: localhost'') = [ascii ''Host'', ascii '' localhost'']"
    "split_all (ascii '':'') (ascii ''Host: : 443'')
       = [ascii ''Host'', ascii '' '', ascii '' 443'']"
    "split_all (ascii '':'') (ascii ''Host'') = [ascii ''Host'']"
    "split_all (ascii '':'') (ascii ''Host: localhost:80a'')
       = [ascii ''Host'', ascii '' localhost'', ascii ''80a'']"
    by (simp_all add: ascii_def split_all.simps)
  have port: "py_int sample_runtime (strip (ascii '' 8080 '')) = Inr 8080"
    "py_int sample_runtime (strip (ascii '' 443'')) = Inr 443"
    "py_int sample_runtime (strip (ascii ''80a'')) = Inl ValueError"
    by (simp_all add: host_header_eval)
  have host: "strip (ascii '' localhost'') = ascii ''localhost''" "strip (ascii '' '') = []"
    by (simp_all add: host_header_eval)
  show ?thesis
    using host_header_parser_segments [of sample_runtime "''Host: localhost: 8080 ''"]
      host_header_parser_segments [of sample_runtime "''Host: localhost''"]
      host_header_parser_segments [of sample_runtime "''Host: : 443''"]
      host_header_parser_segments [of sample_runtime "''Host''"]
      host_header_parser_segments [of sample_runtime "''Host: localhost:80a''"]
    by (simp add: dec fields port host Let_def)
qed

subsection \<open>Rule evaluation\<close>

lemma find_no_match:
  "\<forall>q\<in>set tbl. \<not> rule_matches d (snd q) \<Longrightarrow> find_target_endpoint tbl (JDict d) = Inr None"
  by (induction tbl) (auto simp: rule_matches_def split: option.splits)

lemma find_first_match:
  "\<forall>q\<in>set before. \<not> rule_matches d (snd q) \<Longrightarrow> rule_matches d r \<Longrightarrow>
   find_target_endpoint (before @ (name, r) # after) (JDict d)
     = Inr (Some (target_host r, target_port r))"
  by (induction before) (auto simp: rule_matches_def split: option.splits)

lemma find_not_dict:
  "\<not> is_dict v \<Longrightarrow> tbl \<noteq> [] \<Longrightarrow> find_target_endpoint tbl v = Inl AttributeError"
  by (cases tbl; cases v) auto

text \<open>
  Claim C7.  Rule evaluation (\<open>find_target_endpoint\<close>) follows the insertion order of the
  Endpoint Table: for every document and every table, if the rule at position \<open>i\<close>
  matches and no rule before it does, the evaluation returns the target of that rule,
  whatever rules after it match as well.  The result is a function of the table and the
  document.
\<close>

theorem first_inserted_rule_wins:
  "i < length API \<and> rule_matches d (snd (API ! i))
     \<and> (\<forall>k<i. \<not> rule_matches d (snd (API ! k)))
   \<longrightarrow> find_target_endpoint API (JDict d)
        = Inr (Some (target_host (snd (API ! i)), target_port (snd (API ! i))))"
proof
  assume h: "i < length API \<and> rule_matches d (snd (API ! i))
     \<and> (\<forall>k<i. \<not> rule_matches d (snd (API ! k)))"
  then have split: "API = take i API @ (fst (API ! i), snd (API ! i)) # drop (Suc i) API"
    by (simp add: id_take_nth_drop)
  have "\<forall>q\<in>set (take i API). \<not> rule_matches d (snd q)"
  proof
    fix q
    assume "q \<in> set (take i API)"
    then obtain k where "k < length (take i API)" "q = take i API ! k"
      by (auto simp: in_set_conv_nth)
    with h show "\<not> rule_matches d (snd q)" by simp
  qed
  with h have "find_target_endpoint
      (take i API @ (fst (API ! i), snd (API ! i)) # drop (Suc i) API) (JDict d)
      = Inr (Some (target_host (snd (API ! i)), target_port (snd (API ! i))))"
    by (intro find_first_match) auto
  with split show "find_target_endpoint API (JDict d)
        = Inr (Some (target_host (snd (API ! i)), target_port (snd (API ! i))))"
    by simp
qed

theorem first_inserted_rule_wins_witness:
  "rule_matches doc_both (snd (sample_table ! 0)) \<and> rule_matches doc_both (snd (sample_table ! 1))
   \<and> find_target_endpoint sample_table (JDict doc_both)
       = Inr (Some (ascii ''api1.example.com'', 80))"
proof -
  have m: "rule_matches doc_both (snd (sample_table ! 0))"
    "rule_matches doc_both (snd (sample_table ! 1))"
    by (simp_all add: rule_matches_def doc_both_def sample_table_def ascii_def)
  with first_inserted_rule_wins [of 0 sample_table doc_both] show ?thesis
    by (simp add: sample_table_def)
qed

subsection \<open>Endpoint Resolver\<close>

lemma try_no_delimiter:
  "\<not> contains (CRLF @ CRLF) data \<Longrightarrow>
   determine_target_endpoint_try tbl rt data False = Inl ValueError"
  using find_sep_None_iff [OF CRLF2_nonempty, of data]
  by (simp add: determine_target_endpoint_try_def split_max1_def)

lemma try_first_cut:
  assumes "first_cut (CRLF @ CRLF) data headers body"
  shows "determine_target_endpoint_try tbl rt data False =
     (case json_loads rt body of
        Inl e \<Rightarrow> Inl e
      | Inr payload \<Rightarrow>
          (case parse_host_header rt (host_line headers) of
             Inl e \<Rightarrow> Inl e
           | Inr original \<Rightarrow>
               (case find_target_endpoint tbl payload of
                  Inl e \<Rightarrow> Inl e
                | Inr target \<Rightarrow> if no_host target then Inr original else Inr target)))"
proof -
  from assms have "find_sep (CRLF @ CRLF) data = Some (headers, body)"
    by (simp add: find_sep_first_cut [OF CRLF2_nonempty])
  then show ?thesis
    by (simp add: determine_target_endpoint_try_def split_max1_def)
qed

text \<open>The sample requests: where they are cut, and what their \<open>Host:\<close> line gives.\<close>

lemma sample_cuts:
  "first_cut (CRLF @ CRLF) (request body_value1) request_head body_value1"
  "first_cut (CRLF @ CRLF) (request body_value2) request_head body_value2"
  "first_cut (CRLF @ CRLF) (request body_both) request_head body_both"
  "first_cut (CRLF @ CRLF) (request body_list) request_head body_list"
  "first_cut (CRLF @ CRLF) (request ''not json'') request_head ''not json''"
  unfolding find_sep_first_cut [OF CRLF2_nonempty, symmetric]
  by (simp_all add: request_def request_head_def CRLF_def body_value1_def body_value2_def
      body_both_def body_list_def)

lemma sample_loads_values:
  "json_loads sample_runtime body_value1 = Inr (JDict doc_value1)"
  "json_loads sample_runtime body_value2 = Inr (JDict doc_value2)"
  "json_loads sample_runtime body_both = Inr (JDict doc_both)"
  "json_loads sample_runtime body_list = Inr (JList [JInt 1, JInt 2])"
  "json_loads sample_runtime ''not json'' = Inl JSONDecodeError"
  by (simp_all add: sample_runtime_def sample_loads_def body_value1_def body_value2_def
      body_both_def body_list_def)

lemma sample_origin:
  "parse_host_header rt (host_line request_head) = Inr (Some (ascii ''example.com'', 9090))"
  by (simp add: host_line_def request_head_def CRLF_def host_header_eval)

text \<open>
  Claim C8.  With the streaming flag set, the Endpoint Resolver returns none for every
  table, runtime and content of the initial bytes.
\<close>

theorem resolver_streaming_is_none:
  "determine_target_endpoint API rt data True = Inr None"
  by (simp add: determine_target_endpoint_def determine_target_endpoint_try_def)

text \<open>
  Claim C6.  On the regular path the Endpoint Resolver returns none when the initial bytes
  do not contain the delimiter CRLF CRLF, and when the bytes after its first occurrence
  make \<open>json.loads\<close> raise.  For every input, on either path, the resolver returns a
  value: no exception reaches its caller.
\<close>

theorem resolver_malformed_is_none:
  "((\<nexists>pre post. data = pre @ CRLF @ CRLF @ post) \<longrightarrow>
      determine_target_endpoint API rt data False = Inr None)
   \<and> (\<forall>headers body e.
         first_cut (CRLF @ CRLF) data headers body \<and> json_loads rt body = Inl e \<longrightarrow>
         determine_target_endpoint API rt data False = Inr None)
   \<and> (\<exists>r. determine_target_endpoint API rt data is_streaming = Inr r)"
proof (intro conjI impI allI)
  assume "\<nexists>pre post. data = pre @ CRLF @ CRLF @ post"
  then have "\<not> contains (CRLF @ CRLF) data" by (simp add: contains_iff)
  then show "determine_target_endpoint API rt data False = Inr None"
    by (simp add: determine_target_endpoint_def try_no_delimiter)
next
  fix headers body e
  assume "first_cut (CRLF @ CRLF) data headers body \<and> json_loads rt body = Inl e"
  then have fc: "first_cut (CRLF @ CRLF) data headers body" and js: "json_loads rt body = Inl e"
    by simp_all
  show "determine_target_endpoint API rt data False = Inr None"
    by (simp add: determine_target_endpoint_def try_first_cut [OF fc] js)
next
  show "\<exists>r. determine_target_endpoint API rt data is_streaming = Inr r"
    by (simp add: determine_target_endpoint_def split: sum.splits)
qed

theorem resolver_malformed_witness:
  "determine_target_endpoint sample_table sample_runtime ''GET / HTTP/1.1'' False = Inr None
   \<and> determine_target_endpoint sample_table sample_runtime (request ''not json'') False
       = Inr None"
proof -
  have "\<not> contains (CRLF @ CRLF) ''GET / HTTP/1.1''" by (simp add: CRLF_def)
  then have absent: "\<nexists>pre post. ''GET / HTTP/1.1'' = pre @ CRLF @ CRLF @ post"
    by (simp add: contains_iff)
  from resolver_malformed_is_none [of "''GET / HTTP/1.1''" sample_table sample_runtime] absent
  have "determine_target_endpoint sample_table sample_runtime ''GET / HTTP/1.1'' False = Inr None"
    by blast
  moreover
  from resolver_malformed_is_none [of "request ''not json''" sample_table sample_runtime]
    sample_cuts(5) sample_loads_values(5)
  have "determine_target_endpoint sample_table sample_runtime (request ''not json'') False
      = Inr None"
    by blast
  ultimately show ?thesis by simp
qed

text \<open>
  Claim C1, as amended.  For every regular-path input that splits on the first CRLF CRLF
  and whose body parses as a key/value document, the Endpoint Resolver evaluates the
  table in insertion order.  When the first rule that matches has a non-empty
  \<open>target_host\<close>, the resolver returns that rule's \<open>target_host\<close> and \<open>target_port\<close>.  When
  no rule matches, and also when the first rule that matches has an empty \<open>target_host\<close>,
  it returns what the Host Header Parser makes of the first header line that starts with
  \<open>Host: \<close> (of the empty line when there is none).
\<close>

theorem resolver_first_match_or_host:
  assumes "first_cut (CRLF @ CRLF) data headers body"
    and "json_loads rt body = Inr (JDict d)"
  shows "(\<forall>before name r after.
            API = before @ (name, r) # after \<and> (\<forall>q\<in>set before. \<not> rule_matches d (snd q))
            \<and> rule_matches d r \<longrightarrow>
            determine_target_endpoint API rt data False =
              (if target_host r = [] then parse_host_header rt (host_line headers)
               else Inr (Some (target_host r, target_port r))))
       \<and> ((\<forall>q\<in>set API. \<not> rule_matches d (snd q)) \<longrightarrow>
            determine_target_endpoint API rt data False
              = parse_host_header rt (host_line headers))"
proof (intro conjI impI allI)
  fix before name r after
  assume h: "API = before @ (name, r) # after \<and> (\<forall>q\<in>set before. \<not> rule_matches d (snd q))
            \<and> rule_matches d r"
  then have "find_target_endpoint API (JDict d) = Inr (Some (target_host r, target_port r))"
    by (simp add: find_first_match)
  moreover obtain orig where "parse_host_header rt (host_line headers) = Inr orig"
    using parse_host_header_returns by blast
  ultimately show "determine_target_endpoint API rt data False =
              (if target_host r = [] then parse_host_header rt (host_line headers)
               else Inr (Some (target_host r, target_port r)))"
    using assms(2)
    by (simp add: determine_target_endpoint_def try_first_cut [OF assms(1)] no_host_def)
next
  assume "\<forall>q\<in>set API. \<not> rule_matches d (snd q)"
  then have "find_target_endpoint API (JDict d) = Inr None" by (rule find_no_match)
  moreover obtain orig where "parse_host_header rt (host_line headers) = Inr orig"
    using parse_host_header_returns by blast
  ultimately show "determine_target_endpoint API rt data False
      = parse_host_header rt (host_line headers)"
    using assms(2)
    by (simp add: determine_target_endpoint_def try_first_cut [OF assms(1)] no_host_def)
qed

theorem resolver_first_match_witness:
  "determine_target_endpoint sample_table sample_runtime (request body_value1) False
     = Inr (Some (ascii ''api1.example.com'', 80))
   \<and> determine_target_endpoint sample_table sample_runtime (request body_value2) False
     = Inr (Some (ascii ''example.com'', 9090))"
proof -
  note first = resolver_first_match_or_host [OF sample_cuts(1) sample_loads_values(1),
      of sample_table, THEN conjunct1, rule_format,
      of "[]" "ascii ''api1''" "snd (sample_table ! 0)" "tl sample_table"]
  have "determine_target_endpoint sample_table sample_runtime (request body_value1) False
     = Inr (Some (ascii ''api1.example.com'', 80))"
    using first by (simp add: sample_table_def rule_matches_def doc_value1_def ascii_def)
  moreover
  have nomatch: "\<forall>q\<in>set sample_table. \<not> rule_matches doc_value2 (snd q)"
    by (simp add: sample_table_def rule_matches_def doc_value2_def ascii_def)
  note none = resolver_first_match_or_host [OF sample_cuts(2) sample_loads_values(2),
      of sample_table, THEN conjunct2, THEN mp, OF nomatch]
  have "determine_target_endpoint sample_table sample_runtime (request body_value2) False
     = Inr (Some (ascii ''example.com'', 9090))"
    using none by (simp add: sample_origin)
  ultimately show ?thesis by simp
qed

text \<open>
  The claim as the specification states it fails: the only rule of \<open>blank_host_table\<close>
  matches the document of the request, and the resolver returns the host and port of the
  \<open>Host:\<close> header instead of the rule's target.
\<close>

theorem resolver_blank_target_host_counterexample:
  "first_cut (CRLF @ CRLF) (request body_value1) request_head body_value1
   \<and> json_loads sample_runtime body_value1 = Inr (JDict doc_value1)
   \<and> rule_matches doc_value1 (snd (blank_host_table ! 0))
   \<and> determine_target_endpoint blank_host_table sample_runtime (request body_value1) False
       = Inr (Some (ascii ''example.com'', 9090))
   \<and> Inr (Some (ascii ''example.com'', 9090))
       \<noteq> (Inr (Some (target_host (snd (blank_host_table ! 0)),
                      target_port (snd (blank_host_table ! 0))))
            :: exn + (pystr \<times> int) option)"
proof -
  have "find_target_endpoint blank_host_table (JDict doc_value1) = Inr (Some ([], 8080))"
    by (simp add: blank_host_table_def doc_value1_def ascii_def)
  then have "determine_target_endpoint blank_host_table sample_runtime (request body_value1)
      False = Inr (Some (ascii ''example.com'', 9090))"
    by (simp add: determine_target_endpoint_def try_first_cut [OF sample_cuts(1)]
        sample_loads_values(1) sample_origin no_host_def)
  moreover have "rule_matches doc_value1 (snd (blank_host_table ! 0))"
    by (simp add: rule_matches_def blank_host_table_def doc_value1_def ascii_def)
  ultimately show ?thesis
    using sample_cuts(1) sample_loads_values(1)
    by (simp add: blank_host_table_def ascii_def)
qed

text \<open>
  Claim C10.  For every regular-path input whose part after the first CRLF CRLF parses
  as JSON but not as a key/value object (an array, a string, a number, a boolean or
  null): with at least one rule in the Endpoint Table the resolver returns none,
  whatever the \<open>Host:\<close> header says; with an empty table it returns what the Host Header
  Parser makes of the \<open>Host:\<close> line.
\<close>

theorem non_object_payload:
  assumes "first_cut (CRLF @ CRLF) data headers body"
    and "json_loads rt body = Inr v" and "\<not> is_dict v"
  shows "(API \<noteq> [] \<longrightarrow> determine_target_endpoint API rt data False = Inr None)
       \<and> (API = [] \<longrightarrow>
            determine_target_endpoint API rt data False
              = parse_host_header rt (host_line headers))"
proof -
  obtain orig where o: "parse_host_header rt (host_line headers) = Inr orig"
    using parse_host_header_returns by blast
  show ?thesis
    using assms(2,3) o
    by (auto simp: determine_target_endpoint_def try_first_cut [OF assms(1)] no_host_def
        find_not_dict)
qed

theorem non_object_payload_witness:
  "determine_target_endpoint sample_table sample_runtime (request body_list) False = Inr None
   \<and> determine_target_endpoint [] sample_runtime (request body_list) False
       = Inr (Some (ascii ''example.com'', 9090))"
  using non_object_payload [OF sample_cuts(4) sample_loads_values(4), of sample_table]
    non_object_payload [OF sample_cuts(4) sample_loads_values(4), of "[]"]
  by (simp add: sample_table_def sample_origin)

subsection \<open>Socket operations\<close>

lemma other_neq [simp]: "other s \<noteq> s" "s \<noteq> other s"
  by (cases s; simp)+

lemma recv_Data:
  assumes "rx_of s w = Data b # rest"
  shows "\<exists>w'. recv s w = (Returned b, w') \<and> trace w' = trace w @ [Recv s b]
           \<and> rx_of s w' = rest \<and> rx_of (other s) w' = rx_of (other s) w
           \<and> tx_of Client w' = tx_of Client w \<and> tx_of Target w' = tx_of Target w
           \<and> dial w' = dial w"
  using assms by (cases s) (auto simp: recv_def log_def)

lemma sendall_ok:
  assumes "enough (tx_of s w) (Suc n)"
  shows "\<exists>w'. sendall s b w = (Returned (), w') \<and> trace w' = trace w @ [Sent s b]
           \<and> rx_of Client w' = rx_of Client w \<and> rx_of Target w' = rx_of Target w
           \<and> enough (tx_of s w') n \<and> tx_of (other s) w' = tx_of (other s) w
           \<and> dial w' = dial w"
  using assms
  by (cases s; cases "tx_of s w"; cases "the (tx_of s w)") (auto simp: sendall_def log_def)

lemma recv_cases:
  "(\<exists>w'. recv s w = (Blocked, w') \<and> trace w' = trace w)
   \<or> (\<exists>w'. recv s w = (Raised OSError, w') \<and> trace w' = trace w @ [RecvFailed s])
   \<or> (\<exists>b w'. recv s w = (Returned b, w') \<and> trace w' = trace w @ [Recv s b])"
  by (cases s; cases "rx_of s w"; cases "hd (rx_of s w)") (auto simp: recv_def log_def)

lemma sendall_cases:
  "(\<exists>w'. sendall s b w = (Raised OSError, w') \<and> trace w' = trace w @ [SendFailed s b])
   \<or> (\<exists>w'. sendall s b w = (Returned (), w') \<and> trace w' = trace w @ [Sent s b])"
  by (cases s; cases "tx_of s w"; cases "the (tx_of s w)") (auto simp: sendall_def log_def)

lemma sent_to_append: "sent_to s (xs @ ys) = sent_to s xs @ sent_to s ys"
  by (induction s xs rule: sent_to.induct) auto

subsection \<open>Bounded Relay\<close>

lemma handle_regular_http_drain:
  "handle_regular_http w =
     (case drain Client w of
        (Returned u, w2) \<Rightarrow> drain Target w2
      | (Raised e, w2) \<Rightarrow> (Raised e, w2)
      | (Blocked, w2) \<Rightarrow> (Blocked, w2))"
  by (auto simp: handle_regular_http_def drain_def split: prod.splits outcome.splits)

lemma drain_unfold:
  "drain src w =
     (case recv src w of
        (Returned d, w1) \<Rightarrow>
          if d = [] then (Returned (), w1)
          else (case sendall (other src) d w1 of
                  (Returned u, w2) \<Rightarrow> drain src w2
                | (Raised e, w2) \<Rightarrow> (Raised e, w2)
                | (Blocked, w2) \<Rightarrow> (Blocked, w2))
      | (Raised e, w1) \<Rightarrow> (Raised e, w1)
      | (Blocked, w1) \<Rightarrow> (Blocked, w1))"
  by (auto simp: drain_def copy_loop.simps [of src] split: prod.splits outcome.splits)

text \<open>
  Copying from a socket that gives the chunks \<open>cs\<close> and then a zero-length read, to a
  socket that accepts them.
\<close>

lemma drain_script:
  assumes "rx_of src w = map Data cs @ Data [] # rest" "[] \<notin> set cs"
    "enough (tx_of (other src) w) (length cs)"
  shows "\<exists>w'. drain src w = (Returned (), w') \<and> trace w' = trace w @ exchange src cs
           \<and> rx_of src w' = rest \<and> rx_of (other src) w' = rx_of (other src) w
           \<and> tx_of src w' = tx_of src w \<and> dial w' = dial w"
  using assms
proof (induction cs arbitrary: w)
  case Nil
  then have "rx_of src w = Data [] # rest" by simp
  from recv_Data [OF this] show ?case
    by (cases src) (auto simp: drain_unfold exchange_def)
next
  case (Cons c cs)
  then have rx: "rx_of src w = Data c # (map Data cs @ Data [] # rest)" and c: "c \<noteq> []"
    by auto
  from recv_Data [OF rx] obtain w1 where w1: "recv src w = (Returned c, w1)"
    "trace w1 = trace w @ [Recv src c]" "rx_of src w1 = map Data cs @ Data [] # rest"
    "rx_of (other src) w1 = rx_of (other src) w"
    "tx_of Client w1 = tx_of Client w" "tx_of Target w1 = tx_of Target w" "dial w1 = dial w"
    by blast
  from Cons.prems(3) w1(5,6) have "enough (tx_of (other src) w1) (Suc (length cs))"
    by (cases src) auto
  from sendall_ok [OF this, of c] obtain w2 where w2:
    "sendall (other src) c w1 = (Returned (), w2)" "trace w2 = trace w1 @ [Sent (other src) c]"
    "rx_of Client w2 = rx_of Client w1" "rx_of Target w2 = rx_of Target w1"
    "enough (tx_of (other src) w2) (length cs)"
    "tx_of (other (other src)) w2 = tx_of (other (other src)) w1"
    "dial w2 = dial w1"
    by blast
  have rx2: "rx_of src w2 = map Data cs @ Data [] # rest"
    "rx_of (other src) w2 = rx_of (other src) w"
    using w2(3,4) w1(3,4) by (cases src; simp)+
  have tx2: "tx_of src w2 = tx_of src w" using w2(6) w1(5,6) by (cases src) auto
  from Cons.IH [OF rx2(1) _ w2(5)] Cons.prems(2) obtain w' where w':
    "drain src w2 = (Returned (), w')" "trace w' = trace w2 @ exchange src cs"
    "rx_of src w' = rest" "rx_of (other src) w' = rx_of (other src) w2"
    "tx_of src w' = tx_of src w2" "dial w' = dial w2"
    by auto
  have "drain src w = (Returned (), w')"
    using w1(1) w2(1) w'(1) c by (subst drain_unfold) simp
  moreover have "trace w' = trace w @ exchange src (c # cs)"
    using w'(2) w2(2) w1(2) by (simp add: exchange_def)
  ultimately show ?case using w'(3,4,5,6) rx2(2) tx2 w2(7) w1(7) by simp
qed

lemma sent_to_exchange:
  "sent_to (other src) (exchange src cs) = cs" "sent_to src (exchange src cs) = []"
  by (induction cs) (auto simp: exchange_def)

lemma reads_exchange:
  "reads src (exchange src cs) = cs @ [[]]" "reads (other src) (exchange src cs) = []"
  by (induction cs) (auto simp: exchange_def)

lemma reads_append: "reads s (xs @ ys) = reads s xs @ reads s ys"
  by (induction s xs rule: reads.induct) auto

lemma exchange_no_sent: "e \<in> set (exchange src cs) \<Longrightarrow> e \<noteq> Sent src b"
  by (induction cs) (auto simp: exchange_def)

text \<open>The writes of a first phase towards the backend precede those of a second phase.\<close>

lemma exchange_order:
  assumes "i < length (exchange Client cs @ exchange Target ds)"
    and "j < length (exchange Client cs @ exchange Target ds)"
    and "(exchange Client cs @ exchange Target ds) ! i = Sent Target b"
    and "(exchange Client cs @ exchange Target ds) ! j = Sent Client c"
  shows "i < j"
proof -
  let ?A = "exchange Client cs" and ?B = "exchange Target ds"
  have i: "i < length ?A"
  proof (rule ccontr)
    assume "\<not> i < length ?A"
    with assms(1,3) have "?B ! (i - length ?A) = Sent Target b" "i - length ?A < length ?B"
      by (auto simp: nth_append)
    then have "Sent Target b \<in> set ?B" by (metis nth_mem)
    then show False using exchange_no_sent by blast
  qed
  have "\<not> j < length ?A"
  proof
    assume "j < length ?A"
    with assms(4) have "?A ! j = Sent Client c" by (simp add: nth_append)
    with \<open>j < length ?A\<close> have "Sent Client c \<in> set ?A" by (metis nth_mem)
    then show False using exchange_no_sent by blast
  qed
  with i show ?thesis by simp
qed

lemma recv_cases_rx:
  "(\<exists>w'. recv s w = (Blocked, w') \<and> trace w' = trace w)
   \<or> (\<exists>w'. recv s w = (Raised OSError, w') \<and> trace w' = trace w @ [RecvFailed s])
   \<or> (\<exists>b w'. recv s w = (Returned b, w') \<and> trace w' = trace w @ [Recv s b]
         \<and> length (rx_of s w') < length (rx_of s w))"
  by (cases s; cases "rx_of s w"; cases "hd (rx_of s w)") (auto simp: recv_def log_def)

lemma sendall_cases_rx:
  "(\<exists>w'. sendall s b w = (Raised OSError, w') \<and> trace w' = trace w @ [SendFailed s b])
   \<or> (\<exists>w'. sendall s b w = (Returned (), w') \<and> trace w' = trace w @ [Sent s b]
         \<and> rx_of (other s) w' = rx_of (other s) w)"
  by (cases s; cases "tx_of s w"; cases "the (tx_of s w)") (auto simp: sendall_def log_def)

text \<open>Every run of a copying phase has the shape \<open>drain_trace\<close>.\<close>

lemma drain_grammar:
  "\<exists>r w' new. drain src w = (r, w') \<and> trace w' = trace w @ new \<and> drain_trace src r new"
proof (induction "length (rx_of src w)" arbitrary: w rule: less_induct)
  case less
  from recv_cases_rx [of src w] show ?case
  proof (elim disjE exE conjE)
    fix w1
    assume "recv src w = (Blocked, w1)" "trace w1 = trace w"
    then show ?thesis by (subst drain_unfold) simp
  next
    fix w1
    assume "recv src w = (Raised OSError, w1)" "trace w1 = trace w @ [RecvFailed src]"
    then show ?thesis by (subst drain_unfold) simp
  next
    fix d w1
    assume r1: "recv src w = (Returned d, w1)" "trace w1 = trace w @ [Recv src d]"
      "length (rx_of src w1) < length (rx_of src w)"
    show ?thesis
    proof (cases "d = []")
      case True
      with r1 show ?thesis by (subst drain_unfold) simp
    next
      case d: False
      from sendall_cases_rx [of "other src" d w1] show ?thesis
      proof (elim disjE exE conjE)
        fix w2
        assume "sendall (other src) d w1 = (Raised OSError, w2)"
          "trace w2 = trace w1 @ [SendFailed (other src) d]"
        with r1 d show ?thesis by (subst drain_unfold) simp
      next
        fix w2
        assume s2: "sendall (other src) d w1 = (Returned (), w2)"
          "trace w2 = trace w1 @ [Sent (other src) d]"
          "rx_of (other (other src)) w2 = rx_of (other (other src)) w1"
        then have "rx_of src w2 = rx_of src w1" by (cases src) auto
        with r1(3) have "length (rx_of src w2) < length (rx_of src w)" by simp
        from less [OF this] obtain r w' new where ih: "drain src w2 = (r, w')"
          "trace w' = trace w2 @ new" "drain_trace src r new"
          by blast
        have "drain src w = (r, w')"
          using r1 d s2 ih(1) by (subst drain_unfold) simp
        moreover have "trace w' = trace w @ (Recv src d # Sent (other src) d # new)"
          using r1 s2 ih(2) by simp
        moreover have "drain_trace src r (Recv src d # Sent (other src) d # new)"
          using d ih(3) by simp
        ultimately show ?thesis by blast
      qed
    qed
  qed
qed

lemma drain_trace_other:
  "drain_trace s r new \<Longrightarrow> reads (other s) new = [] \<and> sent_to s new = []"
proof (induction s r new rule: drain_trace.induct)
  case (1 s r)
  then show ?case by simp
next
  case (2 s r e)
  then show ?case by auto
next
  case (3 s r e e' es)
  then obtain c where e: "e = Recv s c" "c \<noteq> []" by (auto split: event.splits)
  show ?case
  proof (cases "e' = Sent (other s) c")
    case True
    with 3 e have "drain_trace s r es" by simp
    from "3.IH" [OF e(1) True this] e True show ?thesis by simp
  next
    case False
    with 3 e have "e' = SendFailed (other s) c" "es = []" by (simp_all split: if_splits)
    with e show ?thesis by simp
  qed
qed

lemma drain_trace_reads:
  "drain_trace s r new \<Longrightarrow> reads s new = cs @ [[]] \<Longrightarrow> [] \<notin> set cs \<Longrightarrow>
   new = exchange s cs \<and> r = Returned ()"
proof (induction s r new arbitrary: cs rule: drain_trace.induct)
  case (1 s r)
  then show ?case by simp
next
  case (2 s r e)
  then show ?case by (auto simp: exchange_def)
next
  case (3 s r e e' es)
  then obtain c where e: "e = Recv s c" "c \<noteq> []" by (auto split: event.splits)
  show ?case
  proof (cases "e' = Sent (other s) c")
    case True
    with 3 e have g: "drain_trace s r es" by simp
    from "3.prems"(2) e True have rd: "c # reads s es = cs @ [[]]" by simp
    with e(2) obtain cs' where cs: "cs = c # cs'" by (cases cs) auto
    with rd have "reads s es = cs' @ [[]]" by simp
    from "3.IH" [OF e(1) True g this] "3.prems"(3) cs
    have "es = exchange s cs' \<and> r = Returned ()" by simp
    with e True cs show ?thesis by (simp add: exchange_def)
  next
    case False
    with 3 e have f: "e' = SendFailed (other s) c" "es = []" by (simp_all split: if_splits)
    with "3.prems"(2) e have "[c] = cs @ [[]]" by simp
    with e(2) show ?thesis by (cases cs) auto
  qed
qed

lemma drain_trace_unfinished:
  "drain_trace s r new \<Longrightarrow> r \<noteq> Returned () \<Longrightarrow> [] \<notin> set (reads s new)"
proof (induction s r new rule: drain_trace.induct)
  case (1 s r)
  then show ?case by simp
next
  case (2 s r e)
  then show ?case by auto
next
  case (3 s r e e' es)
  then obtain c where e: "e = Recv s c" "c \<noteq> []" by (auto split: event.splits)
  show ?case
  proof (cases "e' = Sent (other s) c")
    case True
    with 3 e have g: "drain_trace s r es" by simp
    from "3.IH" [OF e(1) True g "3.prems"(2)] e True show ?thesis by simp
  next
    case False
    with 3 e have f: "e' = SendFailed (other s) c" "es = []" by (simp_all split: if_splits)
    with e show ?thesis by simp
  qed
qed

text \<open>
  A run of \<open>handle_regular_http\<close> is a copying phase from the client, followed, when
  that phase returned, by a copying phase from the backend.
\<close>

lemma regular_grammar:
  "\<exists>r w' a b r1. handle_regular_http w = (r, w') \<and> trace w' = trace w @ a @ b
      \<and> drain_trace Client r1 a
      \<and> (if r1 = Returned () then drain_trace Target r b else b = [] \<and> r = r1)"
proof -
  from drain_grammar [of Client w] obtain r1 w1 a where a: "drain Client w = (r1, w1)"
    "trace w1 = trace w @ a" "drain_trace Client r1 a"
    by blast
  show ?thesis
  proof (cases "r1 = Returned ()")
    case True
    from drain_grammar [of Target w1] obtain r w' b where b: "drain Target w1 = (r, w')"
      "trace w' = trace w1 @ b" "drain_trace Target r b"
      by blast
    have "handle_regular_http w = (r, w')"
      using a(1) b(1) True by (simp add: handle_regular_http_drain)
    moreover have "trace w' = trace w @ a @ b" using a(2) b(2) by simp
    ultimately show ?thesis using a(3) b(3) True
      by (intro exI [of _ r] exI [of _ w'] exI [of _ a] exI [of _ b] exI [of _ r1]) simp
  next
    case False
    then have "handle_regular_http w = (r1, w1)"
      using a(1) by (cases r1) (simp_all add: handle_regular_http_drain)
    moreover have "trace w1 = trace w @ a @ []" using a(2) by simp
    ultimately show ?thesis using a(3) False
      by (intro exI [of _ r1] exI [of _ w1] exI [of _ a] exI [of _ "[]"] exI [of _ r1]) simp
  qed
qed

lemma regular_run:
  assumes "handle_regular_http w = (r, w')" and "trace w' = trace w @ new"
    and "reads Client new = cs @ [[]]" and "[] \<notin> set cs"
    and "reads Target new = ds @ [[]]" and "[] \<notin> set ds"
  shows "r = Returned () \<and> new = exchange Client cs @ exchange Target ds"
proof -
  from regular_grammar [of w] assms(1,2) obtain a b r1 where g: "new = a @ b"
    "drain_trace Client r1 a"
    "if r1 = Returned () then drain_trace Target r b else b = [] \<and> r = r1"
    by auto
  have r1: "r1 = Returned ()"
  proof (rule ccontr)
    assume n: "r1 \<noteq> Returned ()"
    with g(3) have "b = []" by simp
    with g(1) assms(3) have "reads Client a = cs @ [[]]" by simp
    moreover from drain_trace_unfinished [OF g(2) n] have "[] \<notin> set (reads Client a)" .
    ultimately show False by simp
  qed
  with g(3) have b: "drain_trace Target r b" by simp
  from drain_trace_other [OF b] have "reads Client b = []" by simp
  with g(1) assms(3) have "reads Client a = cs @ [[]]" by (simp add: reads_append)
  from drain_trace_reads [OF g(2) this assms(4)] have a: "a = exchange Client cs" by simp
  from drain_trace_other [OF g(2)] have "reads Target a = []" by simp
  with g(1) assms(5) have "reads Target b = ds @ [[]]" by (simp add: reads_append)
  from drain_trace_reads [OF b this assms(6)] have "b = exchange Target ds" "r = Returned ()"
    by simp_all
  with a g(1) show ?thesis by simp
qed

text \<open>When the sockets deliver the chunks and accept the writes, such a run takes place.\<close>

lemma regular_script:
  assumes "client_rx w = map Data cs @ Data [] # crest" and "[] \<notin> set cs"
    and "target_rx w = map Data ds @ Data [] # trest" and "[] \<notin> set ds"
    and "enough (target_tx w) (length cs)" and "enough (client_tx w) (length ds)"
  shows "\<exists>w'. handle_regular_http w = (Returned (), w')
      \<and> trace w' = trace w @ exchange Client cs @ exchange Target ds"
proof -
  from drain_script [of Client w cs crest] assms(1,2,5)
  obtain w1 where w1: "drain Client w = (Returned (), w1)"
    "trace w1 = trace w @ exchange Client cs" "rx_of Target w1 = rx_of Target w"
    "tx_of Client w1 = tx_of Client w"
    by auto
  from drain_script [of Target w1 ds trest] assms(3,4,6) w1(3,4)
  obtain w2 where w2: "drain Target w1 = (Returned (), w2)"
    "trace w2 = trace w1 @ exchange Target ds"
    by auto
  have "handle_regular_http w = (Returned (), w2)"
    using w1(1) w2(1) by (simp add: handle_regular_http_drain)
  moreover have "trace w2 = trace w @ exchange Client cs @ exchange Target ds"
    using w1(2) w2(2) by simp
  ultimately show ?thesis by blast
qed

text \<open>
  Claim C3.  For every run of the Bounded Relay in which the reads from the client give
  the non-empty chunks \<open>cs\<close> (N bytes in all) followed by a zero-length read, and the
  reads from the backend give the non-empty chunks \<open>ds\<close> (M bytes in all) followed by a
  zero-length read: the relay has returned; what it wrote to the backend is exactly \<open>cs\<close>,
  chunk by chunk and in order, and what it wrote to the client is exactly \<open>ds\<close>; and
  every write to the backend comes before every write to the client.  Such a run takes
  place whenever the client socket delivers \<open>cs\<close> and then closes, the backend socket
  delivers \<open>ds\<close> and then closes, and the sockets accept the writes.
\<close>

theorem bounded_relay_half_duplex:
  "(\<forall>r w' new.
      handle_regular_http w = (r, w') \<and> trace w' = trace w @ new
      \<and> reads Client new = cs @ [[]] \<and> [] \<notin> set cs
      \<and> reads Target new = ds @ [[]] \<and> [] \<notin> set ds \<longrightarrow>
      r = Returned ()
      \<and> sent_to Target new = cs \<and> sent_to Client new = ds
      \<and> concat (sent_to Target new) = concat cs \<and> concat (sent_to Client new) = concat ds
      \<and> (\<forall>i j b c. i < length new \<and> j < length new \<and> new ! i = Sent Target b
            \<and> new ! j = Sent Client c \<longrightarrow> i < j))
   \<and> (client_rx w = map Data cs @ Data [] # crest \<and> [] \<notin> set cs
      \<and> target_rx w = map Data ds @ Data [] # trest \<and> [] \<notin> set ds
      \<and> enough (target_tx w) (length cs) \<and> enough (client_tx w) (length ds) \<longrightarrow>
      (\<exists>w' new. handle_regular_http w = (Returned (), w') \<and> trace w' = trace w @ new
         \<and> reads Client new = cs @ [[]] \<and> reads Target new = ds @ [[]]))"
proof (rule conjI)
  show "\<forall>r w' new.
      handle_regular_http w = (r, w') \<and> trace w' = trace w @ new
      \<and> reads Client new = cs @ [[]] \<and> [] \<notin> set cs
      \<and> reads Target new = ds @ [[]] \<and> [] \<notin> set ds \<longrightarrow>
      r = Returned ()
      \<and> sent_to Target new = cs \<and> sent_to Client new = ds
      \<and> concat (sent_to Target new) = concat cs \<and> concat (sent_to Client new) = concat ds
      \<and> (\<forall>i j b c. i < length new \<and> j < length new \<and> new ! i = Sent Target b
            \<and> new ! j = Sent Client c \<longrightarrow> i < j)"
  proof (intro allI, rule impI)
    fix r w' new
    assume h: "handle_regular_http w = (r, w') \<and> trace w' = trace w @ new
        \<and> reads Client new = cs @ [[]] \<and> [] \<notin> set cs
        \<and> reads Target new = ds @ [[]] \<and> [] \<notin> set ds"
    then have run: "r = Returned ()" "new = exchange Client cs @ exchange Target ds"
      using regular_run [of w r w' new cs ds] by simp_all
    have st: "sent_to Target new = cs" "sent_to Client new = ds"
      using sent_to_exchange [of Client cs] sent_to_exchange [of Target ds] run(2)
      by (simp_all add: sent_to_append)
    have ord: "\<forall>i j b c. i < length new \<and> j < length new \<and> new ! i = Sent Target b
              \<and> new ! j = Sent Client c \<longrightarrow> i < j"
      unfolding run(2) using exchange_order by blast
    show "r = Returned ()
        \<and> sent_to Target new = cs \<and> sent_to Client new = ds
        \<and> concat (sent_to Target new) = concat cs \<and> concat (sent_to Client new) = concat ds
        \<and> (\<forall>i j b c. i < length new \<and> j < length new \<and> new ! i = Sent Target b
              \<and> new ! j = Sent Client c \<longrightarrow> i < j)"
      using run(1) st ord by simp
  qed
next
  show "client_rx w = map Data cs @ Data [] # crest \<and> [] \<notin> set cs
      \<and> target_rx w = map Data ds @ Data [] # trest \<and> [] \<notin> set ds
      \<and> enough (target_tx w) (length cs) \<and> enough (client_tx w) (length ds) \<longrightarrow>
      (\<exists>w' new. handle_regular_http w = (Returned (), w') \<and> trace w' = trace w @ new
         \<and> reads Client new = cs @ [[]] \<and> reads Target new = ds @ [[]])"
  proof
    assume h: "client_rx w = map Data cs @ Data [] # crest \<and> [] \<notin> set cs
        \<and> target_rx w = map Data ds @ Data [] # trest \<and> [] \<notin> set ds
        \<and> enough (target_tx w) (length cs) \<and> enough (client_tx w) (length ds)"
    then obtain w' where "handle_regular_http w = (Returned (), w')"
      "trace w' = trace w @ exchange Client cs @ exchange Target ds"
      using regular_script [of w cs crest ds trest] by blast
    moreover have "reads Client (exchange Client cs @ exchange Target ds) = cs @ [[]]"
      "reads Target (exchange Client cs @ exchange Target ds) = ds @ [[]]"
      using reads_exchange [of Client cs] reads_exchange [of Target ds]
      by (simp_all add: reads_append)
    ultimately show "\<exists>w' new. handle_regular_http w = (Returned (), w')
        \<and> trace w' = trace w @ new
        \<and> reads Client new = cs @ [[]] \<and> reads Target new = ds @ [[]]"
      by blast
  qed
qed

theorem bounded_relay_witness:
  "\<exists>w'. handle_regular_http
          (sample_world [Data ''ab'', Data ''c'', Data []] [Data ''xyz'', Data []] (Some 2) True)
        = (Returned (), w')
      \<and> sent_to Target (trace w') = [''ab'', ''c''] \<and> sent_to Client (trace w') = [''xyz'']"
proof -
  let ?w = "sample_world [Data ''ab'', Data ''c'', Data []] [Data ''xyz'', Data []] (Some 2) True"
  note claim = bounded_relay_half_duplex [of ?w "[''ab'', ''c'']" "[''xyz'']" "[]" "[]"]
  have tr: "trace ?w = []" by (simp add: sample_world_def)
  from claim [THEN conjunct2] obtain w' new where run:
    "handle_regular_http ?w = (Returned (), w')" "trace w' = trace ?w @ new"
    "reads Client new = [''ab'', ''c''] @ [[]]" "reads Target new = [''xyz''] @ [[]]"
    by (auto simp: sample_world_def)
  with claim [THEN conjunct1, rule_format, of "Returned ()" w' new]
  have "sent_to Target new = [''ab'', ''c'']" "sent_to Client new = [''xyz'']"
    by simp_all
  with run(1,2) tr show ?thesis by simp
qed

subsection \<open>Streaming Relay\<close>

lemma streaming_grammar:
  "\<exists>r w' new. handle_streaming w = (r, w') \<and> trace w' = trace w @ new
      \<and> relay_trace Client r new"
proof (induction w rule: handle_streaming.induct)
  case (1 w)
  from recv_cases [of Client w] show ?case
  proof (elim disjE exE conjE)
    fix w1
    assume "recv Client w = (Blocked, w1)" "trace w1 = trace w"
    then show ?thesis by (subst handle_streaming.simps) simp
  next
    fix w1
    assume "recv Client w = (Raised OSError, w1)" "trace w1 = trace w @ [RecvFailed Client]"
    then show ?thesis by (subst handle_streaming.simps) simp
  next
    fix data w1
    assume r1: "recv Client w = (Returned data, w1)" "trace w1 = trace w @ [Recv Client data]"
    show ?thesis
    proof (cases "data = []")
      case True
      with r1 show ?thesis by (subst handle_streaming.simps) simp
    next
      case d: False
      from sendall_cases [of Target data w1] show ?thesis
      proof (elim disjE exE conjE)
        fix w2
        assume "sendall Target data w1 = (Raised OSError, w2)"
          "trace w2 = trace w1 @ [SendFailed Target data]"
        with r1 d show ?thesis by (subst handle_streaming.simps) simp
      next
        fix w2
        assume s2: "sendall Target data w1 = (Returned (), w2)"
          "trace w2 = trace w1 @ [Sent Target data]"
        from recv_cases [of Target w2] show ?thesis
        proof (elim disjE exE conjE)
          fix w3
          assume "recv Target w2 = (Blocked, w3)" "trace w3 = trace w2"
          with r1 d s2 show ?thesis by (subst handle_streaming.simps) simp
        next
          fix w3
          assume "recv Target w2 = (Raised OSError, w3)"
            "trace w3 = trace w2 @ [RecvFailed Target]"
          with r1 d s2 show ?thesis by (subst handle_streaming.simps) simp
        next
          fix response w3
          assume r3: "recv Target w2 = (Returned response, w3)"
            "trace w3 = trace w2 @ [Recv Target response]"
          show ?thesis
          proof (cases "response = []")
            case True
            with r1 d s2 r3 show ?thesis by (subst handle_streaming.simps) simp
          next
            case rs: False
            from sendall_cases [of Client response w3] show ?thesis
            proof (elim disjE exE conjE)
              fix w4
              assume "sendall Client response w3 = (Raised OSError, w4)"
                "trace w4 = trace w3 @ [SendFailed Client response]"
              with r1 d s2 r3 rs show ?thesis by (subst handle_streaming.simps) simp
            next
              fix w4
              assume s4: "sendall Client response w3 = (Returned (), w4)"
                "trace w4 = trace w3 @ [Sent Client response]"
              from "1.IH" [OF r1(1) [symmetric] refl d s2(1) [symmetric] refl
                  r3(1) [symmetric] refl rs s4(1) [symmetric] refl]
              obtain r w' new where ih: "handle_streaming w4 = (r, w')"
                "trace w' = trace w4 @ new" "relay_trace Client r new"
                by auto
              have "handle_streaming w = (r, w')"
                using r1 d s2 r3 rs s4 ih(1) by (subst handle_streaming.simps) simp
              moreover have "trace w' = trace w @
                  (Recv Client data # Sent Target data # Recv Target response
                   # Sent Client response # new)"
                using r1 s2 r3 s4 ih(2) by simp
              moreover have "relay_trace Client r
                  (Recv Client data # Sent Target data # Recv Target response
                   # Sent Client response # new)"
                using d rs ih(3) by simp
              ultimately show ?thesis by blast
            qed
          qed
        qed
      qed
    qed
  qed
qed

lemma grammar_outcome: "relay_trace s r new \<Longrightarrow> r = Returned () \<or> r = Blocked"
  by (induction s r new rule: relay_trace.induct) (auto split: event.splits if_splits)

lemma grammar_forward:
  "relay_trace s r new \<Longrightarrow> i < length new \<Longrightarrow> new ! i = Recv s' b \<Longrightarrow> b \<noteq> [] \<Longrightarrow>
   Suc i < length new
   \<and> (new ! Suc i = Sent (other s') b \<or> new ! Suc i = SendFailed (other s') b)"
proof (induction s r new arbitrary: i rule: relay_trace.induct)
  case (1 s r)
  then show ?case by simp
next
  case (2 s r e)
  then show ?case by auto
next
  case (3 s r e e' es)
  then obtain c where e: "e = Recv s c" "c \<noteq> []" by (auto split: event.splits)
  show ?case
  proof (cases "e' = Sent (other s) c")
    case True
    with 3 e have g: "relay_trace (other s) r es" by simp
    consider "i = 0" | "i = 1" | j where "i = Suc (Suc j)"
      by (metis One_nat_def not0_implies_Suc)
    then show ?thesis
    proof cases
      case 1
      with "3.prems" e True show ?thesis by auto
    next
      case 2
      with "3.prems" True show ?thesis by auto
    next
      case (3 j)
      with "3.prems" have "j < length es" "es ! j = Recv s' b" by auto
      from "3.IH" [OF e(1) True g this \<open>b \<noteq> []\<close>] 3 show ?thesis by simp
    qed
  next
    case False
    with 3 e have f: "e' = SendFailed (other s) c" "es = []" by (simp_all split: if_splits)
    with "3.prems" e show ?thesis by (cases i) auto
  qed
qed

lemma grammar_stop:
  "relay_trace s r new \<Longrightarrow> i < length new \<Longrightarrow> stop_event (new ! i) \<Longrightarrow>
   Suc i = length new \<and> r = Returned ()"
proof (induction s r new arbitrary: i rule: relay_trace.induct)
  case (1 s r)
  then show ?case by simp
next
  case (2 s r e)
  then show ?case by auto
next
  case (3 s r e e' es)
  then obtain c where e: "e = Recv s c" "c \<noteq> []" by (auto split: event.splits)
  show ?case
  proof (cases "e' = Sent (other s) c")
    case True
    with 3 e have g: "relay_trace (other s) r es" by simp
    consider "i = 0" | "i = 1" | j where "i = Suc (Suc j)"
      by (metis One_nat_def not0_implies_Suc)
    then show ?thesis
    proof cases
      case 1
      with "3.prems" e True show ?thesis by auto
    next
      case 2
      with "3.prems" True show ?thesis by auto
    next
      case (3 j)
      with "3.prems" have "j < length es" "stop_event (es ! j)" by auto
      from "3.IH" [OF e(1) True g this] 3 show ?thesis by simp
    qed
  next
    case False
    with 3 e have f: "e' = SendFailed (other s) c" "es = []" by (simp_all split: if_splits)
    with "3.prems" e show ?thesis by (cases i) auto
  qed
qed

lemma grammar_returned:
  "relay_trace s r new \<Longrightarrow> r = Returned () \<Longrightarrow> new \<noteq> [] \<and> stop_event (last new)"
proof (induction s r new rule: relay_trace.induct)
  case (1 s r)
  then show ?case by simp
next
  case (2 s r e)
  then show ?case by auto
next
  case (3 s r e e' es)
  then obtain c where e: "e = Recv s c" "c \<noteq> []" by (auto split: event.splits)
  show ?case
  proof (cases "e' = Sent (other s) c")
    case True
    with 3 e have g: "relay_trace (other s) r es" by simp
    from "3.IH" [OF e(1) True g "3.prems"(2)] show ?thesis by simp
  next
    case False
    with 3 e have f: "e' = SendFailed (other s) c" "es = []" by (simp_all split: if_splits)
    then show ?thesis by simp
  qed
qed

lemma grammar_chunks:
  "relay_trace s r new \<Longrightarrow> chunks c new = sent_to (other c) new @ failed_to (other c) new"
proof (induction s r new rule: relay_trace.induct)
  case (1 s r)
  then show ?case by simp
next
  case (2 s r e)
  then show ?case by auto
next
  case (3 s r e e' es)
  then obtain d where e: "e = Recv s d" "d \<noteq> []" by (auto split: event.splits)
  show ?case
  proof (cases "e' = Sent (other s) d")
    case True
    with 3 e have g: "relay_trace (other s) r es" by simp
    from "3.IH" [OF e(1) True g] e True show ?thesis by (cases s; cases c) auto
  next
    case False
    with 3 e have f: "e' = SendFailed (other s) d" "es = []" by (simp_all split: if_splits)
    with e show ?thesis by (cases s; cases c) auto
  qed
qed

text \<open>
  Claim C4.  For every run of the Streaming Relay, with \<open>new\<close> the socket operations of
  the run in order: the relay does not raise; every non-empty chunk read from one side
  is handed at once to \<open>sendall\<close> on the opposite side; a zero-length read or an I/O
  error (a failed read or a failed write) is the last operation of the run, and the
  relay then returns; the relay returns only after such an operation; and the chunks read
  from each side are, in the order read, the chunks written to the opposite side,
  followed by the one whose write failed, if any.  No chunk that was read is dropped.
\<close>

theorem streaming_relay_forwards_until_stop:
  "\<exists>r w' new. handle_streaming w = (r, w') \<and> trace w' = trace w @ new
     \<and> (r = Returned () \<or> r = Blocked)
     \<and> (\<forall>i s b. i < length new \<and> new ! i = Recv s b \<and> b \<noteq> [] \<longrightarrow>
           Suc i < length new
           \<and> (new ! Suc i = Sent (other s) b \<or> new ! Suc i = SendFailed (other s) b))
     \<and> (\<forall>i. i < length new \<and> stop_event (new ! i) \<longrightarrow>
           Suc i = length new \<and> r = Returned ())
     \<and> (r = Returned () \<longrightarrow> new \<noteq> [] \<and> stop_event (last new))
     \<and> chunks Client new = sent_to Target new @ failed_to Target new
     \<and> chunks Target new = sent_to Client new @ failed_to Client new"
proof -
  from streaming_grammar [of w] obtain r w' new where g:
    "handle_streaming w = (r, w')" "trace w' = trace w @ new" "relay_trace Client r new"
    by blast
  have "r = Returned () \<or> r = Blocked" using g(3) by (rule grammar_outcome)
  moreover have "\<forall>i s b. i < length new \<and> new ! i = Recv s b \<and> b \<noteq> [] \<longrightarrow>
           Suc i < length new
           \<and> (new ! Suc i = Sent (other s) b \<or> new ! Suc i = SendFailed (other s) b)"
    using grammar_forward [OF g(3)] by blast
  moreover have "\<forall>i. i < length new \<and> stop_event (new ! i) \<longrightarrow>
      Suc i = length new \<and> r = Returned ()"
    using grammar_stop [OF g(3)] by blast
  moreover have "r = Returned () \<longrightarrow> new \<noteq> [] \<and> stop_event (last new)"
    using grammar_returned [OF g(3)] by blast
  moreover have "chunks Client new = sent_to Target new @ failed_to Target new"
    "chunks Target new = sent_to Client new @ failed_to Client new"
    using grammar_chunks [OF g(3), of Client] grammar_chunks [OF g(3), of Target]
    by simp_all
  ultimately show ?thesis using g(1,2) by blast
qed

lemmas socket_eval =
  handle_streaming.simps recv_def sendall_def log_def sample_world_def

theorem streaming_relay_witness:
  "handle_streaming
     (sample_world [Data ''ab'', Data ''cd'', Data []] [Data ''xy'', Fail] None True)
   = (Returned (),
      \<lparr>client_rx = [Data []], target_rx = [], client_tx = None, target_tx = None,
       dial = (\<lambda>host port. True),
       trace = [Recv Client ''ab'', Sent Target ''ab'', Recv Target ''xy'', Sent Client ''xy'',
                Recv Client ''cd'', Sent Target ''cd'', RecvFailed Target]\<rparr>)
   \<and> chunks Client [Recv Client ''ab'', Sent Target ''ab'', Recv Target ''xy'',
        Sent Client ''xy'', Recv Client ''cd'', Sent Target ''cd'', RecvFailed Target]
       = [''ab'', ''cd'']"
  using streaming_relay_forwards_until_stop
    [of "sample_world [Data ''ab'', Data ''cd'', Data []] [Data ''xy'', Fail] None True"]
  by (simp add: socket_eval)

subsection \<open>Connection Handler\<close>

text \<open>
  Claim C9.  For every connection whose first read gives data for which the Endpoint
  Resolver returns a target with a non-empty host, and whose \<open>connect\<close> to that target
  fails: the handler returns normally (the failure stays inside it); on the sockets it
  has done exactly the first read, one connection attempt, the closing of the target
  socket and the closing of the client socket, in this order; it has written nothing to
  either socket.
\<close>

theorem dial_failure_closes_client:
  assumes "client_rx w = Data data # rest" and "data \<noteq> []"
    and "determine_target_endpoint API rt data (is_stream data) = Inr (Some (host, port))"
    and "host \<noteq> []" and "\<not> dial w host port"
  shows "\<exists>w'. handle_client API rt w = (Returned (), w')
      \<and> trace w' = trace w
          @ [Recv Client data, ConnectFailed host port, Closed Target, Closed Client]
      \<and> sent_to Client (trace w') = sent_to Client (trace w)
      \<and> sent_to Target (trace w') = sent_to Target (trace w)"
proof -
  have rx: "rx_of Client w = Data data # rest" using assms(1) by simp
  from recv_Data [OF rx] obtain w1 where w1: "recv Client w = (Returned data, w1)"
    "trace w1 = trace w @ [Recv Client data]" "dial w1 = dial w"
    by blast
  have con: "connect host port w1 = (Raised OSError, log (ConnectFailed host port) w1)"
    using assms(5) w1(3) by (simp add: connect_def)
  have "handle_client API rt w
      = (Returned (), close Client (close Target (log (ConnectFailed host port) w1)))"
    using w1(1) assms(2,3,4) con
    by (simp add: handle_client_def handle_client_try_def with_target_socket_def forward_def)
  moreover have "trace (close Client (close Target (log (ConnectFailed host port) w1)))
      = trace w @ [Recv Client data, ConnectFailed host port, Closed Target, Closed Client]"
    using w1(2) by (simp add: close_def log_def)
  ultimately show ?thesis by (simp add: sent_to_append)
qed

lemma sample_not_streaming: "\<not> is_stream (request body_value1)"
  by (simp add: is_stream_def request_def request_head_def CRLF_def body_value1_def)

lemma sample_route:
  "determine_target_endpoint sample_table sample_runtime (request body_value1) False
     = Inr (Some (ascii ''api1.example.com'', 80))"
  by (simp add: determine_target_endpoint_def try_first_cut [OF sample_cuts(1)]
      sample_loads_values(1) sample_origin no_host_def sample_table_def doc_value1_def
      ascii_def)

theorem dial_failure_witness:
  "\<exists>w'. handle_client sample_table sample_runtime
          (sample_world [Data (request body_value1)] [] None False)
        = (Returned (), w')
      \<and> trace w' = [Recv Client (request body_value1),
                     ConnectFailed (ascii ''api1.example.com'') 80,
                     Closed Target, Closed Client]"
proof -
  let ?w = "sample_world [Data (request body_value1)] [] None False"
  have host: "ascii ''api1.example.com'' \<noteq> []" by (simp add: ascii_def)
  have route: "determine_target_endpoint sample_table sample_runtime (request body_value1)
      (is_stream (request body_value1)) = Inr (Some (ascii ''api1.example.com'', 80))"
    using sample_not_streaming sample_route by simp
  have data: "request body_value1 \<noteq> []" by (simp add: request_def request_head_def)
  have rx: "client_rx ?w = Data (request body_value1) # []" and down: "\<not> dial ?w (ascii ''api1.example.com'') 80"
    and tr: "trace ?w = []"
    by (simp_all add: sample_world_def)
  from dial_failure_closes_client [OF rx data route host down] tr show ?thesis by auto
qed

end
